theory Spec2Isabelle
  imports
    Main
    "HOL-Library.Multiset"
    "HOL-Library.Sublist"
    "HOL-Library.Char_ord"
    "HOL-Library.List_Lexorder"
begin

section \<open>Data model of pkg/commands/docker.go\<close>

text \<open>
  The Go code works on pointers: a \<^verbatim>\<open>*Container\<close> held by the registry is the very object a
  service refers to and a stats monitor writes to, and \<^verbatim>\<open>sort.Slice\<close> reorders the backing
  array of the slice it is given. The model therefore keeps an explicit store: container
  objects, service objects and the backing arrays of \<^verbatim>\<open>[]*Container\<close> slices live at
  addresses, and every function of the source takes the store and returns the updated one.

  A \<^verbatim>\<open>[]*Container\<close> is the address of its backing array (the code never re-slices). A nil
  \<^verbatim>\<open>[]*Container\<close> behaves like an empty one in every operation of this file (range, len,
  append, sort.Slice, lo.Filter) and is represented by a slice of no elements. A
  \<^verbatim>\<open>[]*Service\<close> is never modified in place, but it is tested against nil, so it is a list of
  addresses under an option (\<open>None\<close> is nil).
\<close>

type_synonym cref = nat
type_synonym sref = nat
type_synonym slice = nat

text \<open>\<^verbatim>\<open>types.Container\<close> of the Docker API: the fields this file reads.\<close>

record types_Container =
  ID :: string
  Names :: "string list"
  Labels :: "string \<rightharpoonup> string"
  State :: string

text \<open>
  \<^verbatim>\<open>RecordedStats\<close> is declared in container.go: the decoded sample, two floating-point
  percentages derived from it and the time of recording. The sample is kept as the bytes it
  was decoded from, the time as a clock reading; the percentages are functions of the sample
  and are left out.
\<close>

record RecordedStats =
  ClientStats :: string
  RecordedAt :: nat

record Service =
  Name :: string
  ID :: string
  Container :: "cref option"

text \<open>
  \<^verbatim>\<open>Container\<close> is declared in container.go; these are the fields docker.go reads or writes,
  and the stats history that \<^verbatim>\<open>appendStats\<close> extends. The handles copied from the
  \<^verbatim>\<open>DockerCommand\<close> (Client, OSCommand, Log, Config, Tr) carry no state of their own here.
\<close>

record Container =
  ID :: string
  Name :: string
  ServiceName :: string
  ProjectName :: string
  ContainerNumber :: string
  OneOff :: bool
  Container :: types_Container
  MonitoringStats :: bool
  StatHistory :: "RecordedStats list"

text \<open>The fields of \<^verbatim>\<open>c.Config.UserConfig\<close> that this file reads.\<close>

record UserConfig =
  ShowAllContainers :: bool
  LegacySortContainers :: bool
  Ignore :: "string list"
  DockerCompose :: string

record DockerCommand =
  Config :: UserConfig
  InDockerComposeProject :: bool
  ShowExited :: bool
  Containers :: slice
  DisplayContainers :: slice

record store =
  container_at :: "cref \<Rightarrow> Container"
  next_container :: nat
  service_at :: "sref \<Rightarrow> Service"
  next_service :: nat
  slice_at :: "slice \<Rightarrow> cref list"
  next_slice :: nat

text \<open>
  An \<^verbatim>\<open>error\<close> value returned by a collaborator, or the run-time panic of an index
  expression out of range.
\<close>

datatype error = Error string | PanicIndexOutOfRange

text \<open>
  What the code is given from outside this file: the answer of
  \<^verbatim>\<open>Client.ContainerList\<close>, the answer of \<^verbatim>\<open>OSCommand.RunCommandWithOutput\<close> to a command
  line, \<^verbatim>\<open>utils.SplitLines\<close> (pkg/utils, taken as a parameter), and the standard library's
  \<^verbatim>\<open>sort.Slice\<close> as a function from the comparison and the elements to the elements in
  their new order.
\<close>

record externals =
  ContainerList :: "error + types_Container list"
  RunCommandWithOutput :: "string \<Rightarrow> error + string"
  SplitLines :: "string \<Rightarrow> string list"
  sort_Slice :: "(cref \<Rightarrow> cref \<Rightarrow> bool) \<Rightarrow> cref list \<Rightarrow> cref list"

subsection \<open>Allocation\<close>

definition new_container :: "Container \<Rightarrow> store \<Rightarrow> cref \<times> store" where
  "new_container obj h =
     (next_container h,
      h\<lparr>container_at := (container_at h)(next_container h := obj),
        next_container := Suc (next_container h)\<rparr>)"

definition new_service :: "Service \<Rightarrow> store \<Rightarrow> sref \<times> store" where
  "new_service obj h =
     (next_service h,
      h\<lparr>service_at := (service_at h)(next_service h := obj),
        next_service := Suc (next_service h)\<rparr>)"

definition new_slice :: "cref list \<Rightarrow> store \<Rightarrow> slice \<times> store" where
  "new_slice elems h =
     (next_slice h,
      h\<lparr>slice_at := (slice_at h)(next_slice h := elems),
        next_slice := Suc (next_slice h)\<rparr>)"

subsection \<open>Library functions of Go used by the code\<close>

text \<open>\<^verbatim>\<open>m[key]\<close> on a \<^verbatim>\<open>map[string]string\<close>: a missing key reads as the empty string.\<close>

definition index_map :: "(string \<rightharpoonup> string) \<Rightarrow> string \<Rightarrow> string" where
  "index_map m key = (case m key of None \<Rightarrow> [] | Some v \<Rightarrow> v)"

text \<open>\<^verbatim>\<open>strings.TrimLeft(s, cutset)\<close> drops every leading character that is in the cutset.\<close>

definition TrimLeft :: "string \<Rightarrow> string \<Rightarrow> string" where
  "TrimLeft s cutset = dropWhile (\<lambda>ch. ch \<in> set cutset) s"

text \<open>\<^verbatim>\<open>strings.Contains(s, substr)\<close>: substr occurs in s at some position.\<close>

fun Contains :: "string \<Rightarrow> string \<Rightarrow> bool" where
  "Contains [] substr = (substr = [])"
| "Contains (ch # s) substr = (prefix substr (ch # s) \<or> Contains s substr)"

text \<open>
  \<^verbatim>\<open>strings.Split(s, sep)\<close> for a separator of one character: the pieces of s between the
  occurrences of sep, one more than there are occurrences.
\<close>

fun Split :: "string \<Rightarrow> char \<Rightarrow> string list" where
  "Split [] sep = [[]]"
| "Split (ch # s) sep =
     (if ch = sep then [] # Split s sep
      else (ch # hd (Split s sep)) # tl (Split s sep))"

section \<open>The container registry: GetContainers\<close>

text \<open>
  One round of the loop of \<^verbatim>\<open>GetContainers\<close>: look the fetched entry up by ID among the
  containers held before, allocate a new object when there is none, overwrite the observed
  fields. \<^verbatim>\<open>container.Names[0]\<close> panics on a container without a name label and without
  names.
\<close>

definition GetContainers_body ::
    "cref list \<Rightarrow> types_Container \<Rightarrow> store \<Rightarrow> error + (cref \<times> store)" where
  "GetContainers_body existingContainers container h =
     (let (newContainer, h1) =
        (case find (\<lambda>existingContainer.
                      Container.ID (container_at h existingContainer) = types_Container.ID container)
                existingContainers of
           Some existingContainer \<Rightarrow> (existingContainer, h)
         | None \<Rightarrow>
             new_container
               \<lparr>Container.ID = types_Container.ID container, Name = [], ServiceName = [],
                ProjectName = [], ContainerNumber = [], OneOff = False,
                Container = \<lparr>types_Container.ID = [], Names = [], Labels = Map.empty, State = []\<rparr>,
                MonitoringStats = False, StatHistory = []\<rparr> h)
      in case (case Labels container ''name'' of
                 Some name \<Rightarrow> Inr name
               | None \<Rightarrow>
                   (case Names container of
                      [] \<Rightarrow> Inl PanicIndexOutOfRange
                    | n # _ \<Rightarrow> Inr (TrimLeft n ''/''))) of
           Inl e \<Rightarrow> Inl e
         | Inr name \<Rightarrow>
             Inr (newContainer,
                  h1\<lparr>container_at := (container_at h1)
                       (newContainer := (container_at h1 newContainer)
                          \<lparr>Container := container,
                           Name := name,
                           ServiceName := index_map (Labels container) ''com.docker.compose.service'',
                           ProjectName := index_map (Labels container) ''com.docker.compose.project'',
                           ContainerNumber := index_map (Labels container) ''com.docker.compose.container'',
                           OneOff := (index_map (Labels container) ''com.docker.compose.oneoff'' = ''True'')\<rparr>)\<rparr>))"

fun GetContainers_loop ::
    "cref list \<Rightarrow> types_Container list \<Rightarrow> store \<Rightarrow> error + (cref list \<times> store)" where
  "GetContainers_loop existingContainers [] h = Inr ([], h)"
| "GetContainers_loop existingContainers (container # containers) h =
     (case GetContainers_body existingContainers container h of
        Inl e \<Rightarrow> Inl e
      | Inr (newContainer, h1) \<Rightarrow>
          (case GetContainers_loop existingContainers containers h1 of
             Inl e \<Rightarrow> Inl e
           | Inr (ownContainers, h2) \<Rightarrow> Inr (newContainer # ownContainers, h2)))"

text \<open>
  \<^verbatim>\<open>GetContainers\<close> returns a new slice (\<^verbatim>\<open>make\<close>), filled by the loop; it does not store
  it in \<^verbatim>\<open>c.Containers\<close>, the caller does.
\<close>

definition GetContainers :: "externals \<Rightarrow> DockerCommand \<Rightarrow> store \<Rightarrow> error + (slice \<times> store)" where
  "GetContainers ext c h =
     (case ContainerList ext of
        Inl err \<Rightarrow> Inl err
      | Inr containers \<Rightarrow>
          (case GetContainers_loop (slice_at h (Containers c)) containers h of
             Inl e \<Rightarrow> Inl e
           | Inr (ownContainers, h1) \<Rightarrow> Inr (new_slice ownContainers h1)))"

section \<open>The service resolver\<close>

text \<open>\<^verbatim>\<open>for _, x := range xs\<close> over a slice that may be nil: nil has no elements.\<close>

definition range_of :: "'a list option \<Rightarrow> 'a list" where
  "range_of xs = (case xs of None \<Rightarrow> [] | Some ys \<Rightarrow> ys)"

text \<open>
  The inner loop of \<^verbatim>\<open>assignContainersToServices\<close> for one service: the first container
  that is not one-off and carries the service's name is stored in the service
  (\<^verbatim>\<open>continue L\<close>); when the loop runs out, nil is stored.
\<close>

fun assignContainersToServices_inner :: "sref \<Rightarrow> cref list \<Rightarrow> store \<Rightarrow> store" where
  "assignContainersToServices_inner service [] h =
     h\<lparr>service_at := (service_at h)
         (service := (service_at h service)\<lparr>Service.Container := None\<rparr>)\<rparr>"
| "assignContainersToServices_inner service (container # containers) h =
     (if \<not> OneOff (container_at h container) \<and>
         ServiceName (container_at h container) = Service.Name (service_at h service)
      then h\<lparr>service_at := (service_at h)
              (service := (service_at h service)\<lparr>Service.Container := Some container\<rparr>)\<rparr>
      else assignContainersToServices_inner service containers h)"

fun assignContainersToServices_loop :: "cref list \<Rightarrow> sref list \<Rightarrow> store \<Rightarrow> store" where
  "assignContainersToServices_loop containers [] h = h"
| "assignContainersToServices_loop containers (service # services) h =
     assignContainersToServices_loop containers services
       (assignContainersToServices_inner service containers h)"

definition assignContainersToServices :: "slice \<Rightarrow> sref list option \<Rightarrow> store \<Rightarrow> store" where
  "assignContainersToServices containers services h =
     assignContainersToServices_loop (slice_at h containers) (range_of services) h"

text \<open>
  \<^verbatim>\<open>obtainStandaloneContainers\<close>: a container is skipped (\<^verbatim>\<open>continue L\<close>) as soon as one
  service makes the condition true, and appended to a new slice otherwise.
\<close>

definition obtainStandaloneContainers ::
    "slice \<Rightarrow> sref list option \<Rightarrow> store \<Rightarrow> slice \<times> store" where
  "obtainStandaloneContainers containers services h =
     new_slice
       (filter
          (\<lambda>container.
             \<not> list_ex
                 (\<lambda>service.
                    \<not> OneOff (container_at h container) \<and>
                    ServiceName (container_at h container) \<noteq> [] \<and>
                    ServiceName (container_at h container) = Service.Name (service_at h service))
                 (range_of services))
          (slice_at h containers))
       h"

text \<open>The containers that some service of the list refers to.\<close>

definition assigned :: "sref list option \<Rightarrow> store \<Rightarrow> cref set" where
  "assigned services h =
     {container. \<exists>service \<in> set (range_of services).
        Service.Container (service_at h service) = Some container}"

section \<open>The display pipeline\<close>

definition filterOutExited :: "DockerCommand \<Rightarrow> slice \<Rightarrow> store \<Rightarrow> slice \<times> store" where
  "filterOutExited c containers h =
     (if ShowExited c then (containers, h)
      else new_slice
             (filter (\<lambda>container. State (Container (container_at h container)) \<noteq> ''exited'')
                (slice_at h containers))
             h)"

text \<open>
  \<^verbatim>\<open>lo.Filter\<close> builds a new slice of the elements that satisfy the predicate, in order;
  \<^verbatim>\<open>lo.SomeBy\<close> is true when some element of the collection satisfies the predicate.
\<close>

definition filterOutIgnoredContainers :: "DockerCommand \<Rightarrow> slice \<Rightarrow> store \<Rightarrow> slice \<times> store" where
  "filterOutIgnoredContainers c containers h =
     new_slice
       (filter
          (\<lambda>container.
             \<not> list_ex (\<lambda>ignore. Contains (Name (container_at h container)) ignore)
                 (Ignore (Config c)))
          (slice_at h containers))
       h"

text \<open>The map literal \<^verbatim>\<open>states\<close>; a state that is not a key reads as 0.\<close>

definition states :: "string \<Rightarrow> int" where
  "states s =
     (if s = ''running'' then 1
      else if s = ''exited'' then 2
      else if s = ''created'' then 3
      else 0)"

text \<open>The comparison handed to \<^verbatim>\<open>sort.Slice\<close>, on the elements at the two indices.\<close>

definition sortedContainers_less :: "store \<Rightarrow> cref \<Rightarrow> cref \<Rightarrow> bool" where
  "sortedContainers_less h i j =
     (let stateLeft = states (State (Container (container_at h i)));
          stateRight = states (State (Container (container_at h j)))
      in if stateLeft = stateRight
         then Name (container_at h i) < Name (container_at h j)
         else states (State (Container (container_at h i)))
              < states (State (Container (container_at h j))))"

text \<open>
  \<^verbatim>\<open>sort.Slice\<close> reorders the backing array of the slice it is given, and
  \<^verbatim>\<open>sortedContainers\<close> returns that same slice.
\<close>

definition sortedContainers ::
    "externals \<Rightarrow> DockerCommand \<Rightarrow> slice \<Rightarrow> store \<Rightarrow> slice \<times> store" where
  "sortedContainers ext c containers h =
     (if \<not> LegacySortContainers (Config c)
      then (containers,
            h\<lparr>slice_at := (slice_at h)
                (containers := sort_Slice ext (sortedContainers_less h) (slice_at h containers))\<rparr>)
      else (containers, h))"

subsection \<open>What sort.Slice promises\<close>

text \<open>
  The documentation of package sort asks for a comparison that is a strict weak ordering
  and then promises the elements in an order in which no element is less than an earlier
  one; the sort is not stable.
\<close>

definition strict_weak_order :: "('a \<Rightarrow> 'a \<Rightarrow> bool) \<Rightarrow> bool" where
  "strict_weak_order lt \<longleftrightarrow>
     (\<forall>a. \<not> lt a a) \<and>
     (\<forall>a b c. lt a b \<and> lt b c \<longrightarrow> lt a c) \<and>
     (\<forall>a b c. \<not> lt a b \<and> \<not> lt b c \<longrightarrow> \<not> lt a c)"

definition sort_Slice_contract ::
    "((cref \<Rightarrow> cref \<Rightarrow> bool) \<Rightarrow> cref list \<Rightarrow> cref list) \<Rightarrow> bool" where
  "sort_Slice_contract srt \<longleftrightarrow>
     (\<forall>lt xs. strict_weak_order lt \<longrightarrow>
        mset (srt lt xs) = mset xs \<and> sorted_wrt (\<lambda>a b. \<not> lt b a) (srt lt xs))"

text \<open>
  The insertion sort by which package sort orders short slices: each element moves left
  while it is less than its left neighbour. The sorted prefix is kept in reverse, its last
  element first.
\<close>

fun insertionSort_inner :: "('a \<Rightarrow> 'a \<Rightarrow> bool) \<Rightarrow> 'a \<Rightarrow> 'a list \<Rightarrow> 'a list" where
  "insertionSort_inner lt x [] = [x]"
| "insertionSort_inner lt x (y # ys) =
     (if lt x y then y # insertionSort_inner lt x ys else x # y # ys)"

definition insertionSort :: "('a \<Rightarrow> 'a \<Rightarrow> bool) \<Rightarrow> 'a list \<Rightarrow> 'a list" where
  "insertionSort lt xs = rev (foldl (\<lambda>prefix x. insertionSort_inner lt x prefix) [] xs)"

section \<open>Service discovery: GetServices\<close>

text \<open>
  The loop of \<^verbatim>\<open>GetServices\<close> over the lines of the command's output: \<^verbatim>\<open>arr[0]\<close> always
  exists, \<^verbatim>\<open>arr[1]\<close> panics when the line has a single field.
\<close>

fun GetServices_loop :: "string list \<Rightarrow> store \<Rightarrow> error + (sref list \<times> store)" where
  "GetServices_loop [] h = Inr ([], h)"
| "GetServices_loop (str # lines) h =
     (let arr = Split str CHR '' ''
      in if length arr \<le> 1 then Inl PanicIndexOutOfRange
         else (let (service, h1) =
                     new_service \<lparr>Service.Name = arr ! 0, ID = arr ! 1, Container = None\<rparr> h
               in case GetServices_loop lines h1 of
                    Inl e \<Rightarrow> Inl e
                  | Inr (services, h2) \<Rightarrow> Inr (service # services, h2)))"

definition GetServices ::
    "externals \<Rightarrow> DockerCommand \<Rightarrow> store \<Rightarrow> error + (sref list option \<times> store)" where
  "GetServices ext c h =
     (if \<not> InDockerComposeProject c then Inr (None, h)
      else (case RunCommandWithOutput ext (DockerCompose (Config c) @ '' config --hash=*'') of
              Inl err \<Rightarrow> Inl err
            | Inr output \<Rightarrow>
                (case GetServices_loop (SplitLines ext output) h of
                   Inl e \<Rightarrow> Inl e
                 | Inr (services, h1) \<Rightarrow> Inr (Some services, h1))))"

section \<open>The refresh\<close>

text \<open>
  \<^verbatim>\<open>RefreshContainersAndServices\<close> returns the display list, the services, and leaves the
  new lists in the \<^verbatim>\<open>DockerCommand\<close>. An error ends the call before \<^verbatim>\<open>c\<close> is written.
\<close>

definition RefreshContainersAndServices ::
    "externals \<Rightarrow> DockerCommand \<Rightarrow> sref list option \<Rightarrow> store \<Rightarrow>
     error + (slice \<times> sref list option \<times> DockerCommand \<times> store)" where
  "RefreshContainersAndServices ext c currentServices h =
     (case GetContainers ext c h of
        Inl err \<Rightarrow> Inl err
      | Inr (containers, h1) \<Rightarrow>
          (case (if currentServices \<noteq> None then Inr (currentServices, h1)
                 else GetServices ext c h1) of
             Inl err \<Rightarrow> Inl err
           | Inr (services, h2) \<Rightarrow>
               (let h3 = assignContainersToServices containers services h2;
                    (displayContainers, h4) =
                      (if \<not> ShowAllContainers (Config c)
                       then obtainStandaloneContainers containers services h3
                       else (containers, h3));
                    c1 = c\<lparr>Containers := containers\<rparr>;
                    (d1, h5) = filterOutExited c1 displayContainers h4;
                    c2 = c1\<lparr>DisplayContainers := d1\<rparr>;
                    (d2, h6) = filterOutIgnoredContainers c2 (DisplayContainers c2) h5;
                    c3 = c2\<lparr>DisplayContainers := d2\<rparr>;
                    (d3, h7) = sortedContainers ext c3 (DisplayContainers c3) h6;
                    c4 = c3\<lparr>DisplayContainers := d3\<rparr>
                in Inr (DisplayContainers c4, services, c4, h7))))"

section \<open>The stats monitor\<close>

text \<open>
  Modelled from the spec: \<^verbatim>\<open>appendStats\<close> is a method of \<^verbatim>\<open>Container\<close> in container.go,
  which is not among the sources; the spec has it append the sample to the container's
  history and touch nothing else.
\<close>

definition appendStats :: "cref \<Rightarrow> RecordedStats \<Rightarrow> store \<Rightarrow> store" where
  "appendStats container recordedStats h =
     h\<lparr>container_at := (container_at h)
         (container := (container_at h container)
            \<lparr>StatHistory := StatHistory (container_at h container) @ [recordedStats]\<rparr>)\<rparr>"

definition set_MonitoringStats :: "cref \<Rightarrow> bool \<Rightarrow> store \<Rightarrow> store" where
  "set_MonitoringStats container b h =
     h\<lparr>container_at := (container_at h)
         (container := (container_at h container)\<lparr>MonitoringStats := b\<rparr>)\<rparr>"

text \<open>
  The answer of \<^verbatim>\<open>Client.ContainerStats\<close>: an error, or a stream whose body ends, given as
  the lines the scanner reads with the clock reading at each. A stream that never ends keeps
  the monitor in its loop and has no place here.

  The places of control in \<^verbatim>\<open>createClientStatMonitor\<close>: at its first statement, at the call
  that opens the stream, in the scan loop with the lines still to come, and after its return.
\<close>

datatype monitor_pc =
  AtEntry | AtContainerStats | AtScan "(string \<times> nat) list" | Returned

fun createClientStatMonitor_step ::
    "error + (string \<times> nat) list \<Rightarrow> cref \<Rightarrow> monitor_pc \<times> store \<Rightarrow> (monitor_pc \<times> store) option" where
  "createClientStatMonitor_step stream container (AtEntry, h) =
     Some (AtContainerStats, set_MonitoringStats container True h)"
| "createClientStatMonitor_step stream container (AtContainerStats, h) =
     (case stream of
        Inl err \<Rightarrow> Some (Returned, set_MonitoringStats container False h)
      | Inr body \<Rightarrow> Some (AtScan body, h))"
| "createClientStatMonitor_step stream container (AtScan ((data, now) # body), h) =
     Some (AtScan body,
           appendStats container \<lparr>ClientStats = data, RecordedAt = now\<rparr> h)"
| "createClientStatMonitor_step stream container (AtScan [], h) =
     Some (Returned, set_MonitoringStats container False h)"
| "createClientStatMonitor_step stream container (Returned, h) = None"

inductive monitor_reaches ::
    "error + (string \<times> nat) list \<Rightarrow> cref \<Rightarrow> monitor_pc \<times> store \<Rightarrow> monitor_pc \<times> store \<Rightarrow> bool"
    for stream :: "error + (string \<times> nat) list" and container :: cref where
  here: "monitor_reaches stream container s s"
| step: "monitor_reaches stream container s t \<Longrightarrow>
         createClientStatMonitor_step stream container t = Some u \<Longrightarrow>
         monitor_reaches stream container s u"

text \<open>The function as a whole: what it leaves in the store when it returns.\<close>

fun createClientStatMonitor_scan :: "cref \<Rightarrow> (string \<times> nat) list \<Rightarrow> store \<Rightarrow> store" where
  "createClientStatMonitor_scan container [] h = h"
| "createClientStatMonitor_scan container ((data, now) # body) h =
     createClientStatMonitor_scan container body
       (appendStats container \<lparr>ClientStats = data, RecordedAt = now\<rparr> h)"

definition createClientStatMonitor ::
    "error + (string \<times> nat) list \<Rightarrow> cref \<Rightarrow> store \<Rightarrow> store" where
  "createClientStatMonitor stream container h =
     (let h1 = set_MonitoringStats container True h
      in case stream of
           Inl err \<Rightarrow> set_MonitoringStats container False h1
         | Inr body \<Rightarrow>
             set_MonitoringStats container False (createClientStatMonitor_scan container body h1))"

text \<open>
  The ticker case of \<^verbatim>\<open>MonitorContainerStats\<close>: the containers of \<^verbatim>\<open>c.Containers\<close> for which
  a monitor is started at a tick, in order.
\<close>

definition MonitorContainerStats_tick :: "DockerCommand \<Rightarrow> store \<Rightarrow> cref list" where
  "MonitorContainerStats_tick c h =
     filter (\<lambda>container. \<not> MonitoringStats (container_at h container))
       (slice_at h (Containers c))"

section \<open>Reading results, and a store to run the code on\<close>

text \<open>The elements of the slice that a stage returns, read in the store it returns.\<close>

definition elements :: "slice \<times> store \<Rightarrow> cref list" where
  "elements p = slice_at (snd p) (fst p)"

text \<open>
  Three containers and three services: container 0 runs service web, container 1 is the
  exited container of service db, container 2 is a one-off job outside any service, and
  service cache has no container but still refers to container 2 from earlier. Slice 0 is
  \<^verbatim>\<open>c.Containers\<close>, slice 1 is \<^verbatim>\<open>c.DisplayContainers\<close> and holds the same containers in
  the opposite order. The history of container 0 holds one sample and its monitor is active.
\<close>

definition ex_container :: "string \<Rightarrow> string \<Rightarrow> string \<Rightarrow> bool \<Rightarrow> string \<Rightarrow> Container" where
  "ex_container i n s one_off st =
     \<lparr>Container.ID = i, Name = n, ServiceName = s, ProjectName = [], ContainerNumber = [],
      OneOff = one_off,
      Container = \<lparr>types_Container.ID = i, Names = [CHR ''/'' # n], Labels = Map.empty, State = st\<rparr>,
      MonitoringStats = False, StatHistory = []\<rparr>"

definition ex_store :: store where
  "ex_store =
     \<lparr>container_at = (\<lambda>_. ex_container [] [] [] False [])
        (0 := (ex_container ''1'' ''web'' ''web'' False ''running'')
                \<lparr>MonitoringStats := True,
                 StatHistory := [\<lparr>ClientStats = ''{}'', RecordedAt = 7\<rparr>]\<rparr>,
         1 := ex_container ''2'' ''db'' ''db'' False ''exited'',
         2 := ex_container ''3'' ''job'' [] True ''created''),
      next_container = 3,
      service_at = (\<lambda>_. \<lparr>Service.Name = [], ID = [], Container = None\<rparr>)
        (0 := \<lparr>Service.Name = ''web'', ID = ''h1'', Container = None\<rparr>,
         1 := \<lparr>Service.Name = ''db'', ID = ''h2'', Container = None\<rparr>,
         2 := \<lparr>Service.Name = ''cache'', ID = ''h3'', Container = Some 2\<rparr>),
      next_service = 3,
      slice_at = (\<lambda>_. [])(0 := [0, 1, 2], 1 := [2, 1, 0]),
      next_slice = 2\<rparr>"

definition ex_command :: DockerCommand where
  "ex_command =
     \<lparr>Config = \<lparr>ShowAllContainers = False, LegacySortContainers = False,
                 Ignore = [''db''], DockerCompose = ''docker-compose''\<rparr>,
      InDockerComposeProject = True, ShowExited = True,
      Containers = 0, DisplayContainers = 1\<rparr>"

text \<open>
  The collaborators of the examples: the runtime lists container 1 again, now exited and
  under a new name, and a container 9 not seen before; the compose tool prints two services;
  lines are split at the newline character; the sort is the insertion sort.
\<close>

definition ex_SplitLines :: "string \<Rightarrow> string list" where
  "ex_SplitLines s = (if s = [] then [] else Split s (CHR 0x0A))"

definition ex_fetched :: "types_Container list" where
  "ex_fetched =
     [\<lparr>types_Container.ID = ''1'', Names = [''/web_1''],
       Labels = [''com.docker.compose.service'' \<mapsto> ''web''], State = ''exited''\<rparr>,
      \<lparr>types_Container.ID = ''9'', Names = [''/cache_1''],
       Labels = [''com.docker.compose.service'' \<mapsto> ''cache'', ''name'' \<mapsto> ''cache''],
       State = ''running''\<rparr>]"

definition ex_externals :: externals where
  "ex_externals =
     \<lparr>ContainerList = Inr ex_fetched,
      RunCommandWithOutput =
        (\<lambda>command. if command = ''docker-compose config --hash=*''
                    then Inr (''web h1'' @ [CHR 0x0A] @ ''db h2'')
                    else Inl (Error ''command not found'')),
      SplitLines = ex_SplitLines,
      sort_Slice = insertionSort\<rparr>"

text \<open>
  A service scaled to two containers: both containers carry the service name web. And a
  store whose only service has the empty name, beside a container without a service label.
\<close>

definition ex_scaled_store :: store where
  "ex_scaled_store =
     \<lparr>container_at = (\<lambda>_. ex_container [] [] [] False [])
        (0 := ex_container ''1'' ''web_1'' ''web'' False ''running'',
         1 := ex_container ''2'' ''web_2'' ''web'' False ''running''),
      next_container = 2,
      service_at = (\<lambda>_. \<lparr>Service.Name = [], ID = [], Container = None\<rparr>)
        (0 := \<lparr>Service.Name = ''web'', ID = ''h1'', Container = None\<rparr>),
      next_service = 1,
      slice_at = (\<lambda>_. [])(0 := [0, 1]),
      next_slice = 1\<rparr>"

definition ex_unnamed_store :: store where
  "ex_unnamed_store =
     \<lparr>container_at = (\<lambda>_. ex_container [] [] [] False [])
        (0 := ex_container ''1'' ''solo'' [] False ''running''),
      next_container = 1,
      service_at = (\<lambda>_. \<lparr>Service.Name = [], ID = [], Container = None\<rparr>)
        (0 := \<lparr>Service.Name = [], ID = ''h1'', Container = None\<rparr>),
      next_service = 1,
      slice_at = (\<lambda>_. [])(0 := [0]),
      next_slice = 1\<rparr>"

section \<open>Stores after allocation\<close>

lemma new_slice_simps:
  "fst (new_slice elems h) = next_slice h"
  "slice_at (snd (new_slice elems h)) = (slice_at h)(next_slice h := elems)"
  "container_at (snd (new_slice elems h)) = container_at h"
  "service_at (snd (new_slice elems h)) = service_at h"
  "next_slice (snd (new_slice elems h)) = Suc (next_slice h)"
  "next_container (snd (new_slice elems h)) = next_container h"
  "next_service (snd (new_slice elems h)) = next_service h"
  by (simp_all add: new_slice_def)

section \<open>The filters of the display pipeline\<close>

lemma filterOutIgnoredContainers_elements:
  "elements (filterOutIgnoredContainers c containers h) =
     filter (\<lambda>container.
               \<not> list_ex (\<lambda>ignore. Contains (Name (container_at h container)) ignore)
                   (Ignore (Config c)))
       (slice_at h containers)"
  by (simp add: elements_def filterOutIgnoredContainers_def new_slice_simps)

lemma filterOutIgnoredContainers_frame:
  "container_at (snd (filterOutIgnoredContainers c containers h)) = container_at h"
  "service_at (snd (filterOutIgnoredContainers c containers h)) = service_at h"
  "fst (filterOutIgnoredContainers c containers h) = next_slice h"
  "next_slice (snd (filterOutIgnoredContainers c containers h)) = Suc (next_slice h)"
  "s \<noteq> next_slice h \<Longrightarrow>
     slice_at (snd (filterOutIgnoredContainers c containers h)) s = slice_at h s"
  by (simp_all add: filterOutIgnoredContainers_def new_slice_simps)

text \<open>
  C8. Filtering the result of the ignore filter once more gives a slice with the same
  elements, and when \<^verbatim>\<open>ShowExited\<close> is set, \<^verbatim>\<open>filterOutExited\<close> hands back the slice it was
  given and changes nothing in the store.
\<close>

theorem filter_composition:
  "elements (case filterOutIgnoredContainers c containers h of
               (once, h1) \<Rightarrow> filterOutIgnoredContainers c once h1)
     = elements (filterOutIgnoredContainers c containers h) \<and>
   (ShowExited c \<longrightarrow> filterOutExited c containers h = (containers, h))"
proof
  obtain once h1 where first: "filterOutIgnoredContainers c containers h = (once, h1)"
    by (cases "filterOutIgnoredContainers c containers h")
  have kept: "slice_at h1 once =
      filter (\<lambda>container.
                \<not> list_ex (\<lambda>ignore. Contains (Name (container_at h container)) ignore)
                    (Ignore (Config c)))
        (slice_at h containers)"
    using filterOutIgnoredContainers_elements [of c containers h]
    by (simp add: first elements_def)
  have same_objects: "container_at h1 = container_at h"
    using filterOutIgnoredContainers_frame(1) [of c containers h] by (simp add: first)
  have "elements (filterOutIgnoredContainers c once h1) = slice_at h1 once"
    by (simp add: filterOutIgnoredContainers_elements kept same_objects)
  then show "elements (case filterOutIgnoredContainers c containers h of
               (once, h1) \<Rightarrow> filterOutIgnoredContainers c once h1)
     = elements (filterOutIgnoredContainers c containers h)"
    by (simp add: first elements_def)
next
  show "ShowExited c \<longrightarrow> filterOutExited c containers h = (containers, h)"
    by (simp add: filterOutExited_def)
qed

theorem filter_composition_witness:
  "ShowExited ex_command \<and>
   filterOutExited ex_command 0 ex_store = (0, ex_store) \<and>
   elements (filterOutIgnoredContainers ex_command 0 ex_store) = [0, 2] \<and>
   elements (case filterOutIgnoredContainers ex_command 0 ex_store of
               (once, h1) \<Rightarrow> filterOutIgnoredContainers ex_command once h1) = [0, 2]"
  using filter_composition [of ex_command 0 ex_store]
  by (simp add: filterOutIgnoredContainers_elements ex_command_def ex_store_def
      ex_container_def)

section \<open>GetContainers keeps the objects it holds\<close>

lemma find_Some_holds: "find P xs = Some x \<Longrightarrow> P x \<and> x \<in> set xs"
  by (induction xs) (auto split: if_splits)

lemma new_container_simps:
  "fst (new_container obj h) = next_container h"
  "container_at (snd (new_container obj h)) = (container_at h)(next_container h := obj)"
  "next_container (snd (new_container obj h)) = Suc (next_container h)"
  "slice_at (snd (new_container obj h)) = slice_at h"
  "service_at (snd (new_container obj h)) = service_at h"
  "next_slice (snd (new_container obj h)) = next_slice h"
  "next_service (snd (new_container obj h)) = next_service h"
  by (simp_all add: new_container_def)

text \<open>What one round of the loop leaves alone, and what it returns.\<close>

lemma GetContainers_body_held:
  assumes "GetContainers_body existing container h = Inr (r, h1)"
    and "p < next_container h"
  shows "Container.ID (container_at h1 p) = Container.ID (container_at h p)"
    and "MonitoringStats (container_at h1 p) = MonitoringStats (container_at h p)"
    and "StatHistory (container_at h1 p) = StatHistory (container_at h p)"
  using assms
  by (auto simp: GetContainers_body_def new_container_def Let_def
      split: option.splits sum.splits list.splits if_splits)

lemma GetContainers_body_next:
  assumes "GetContainers_body existing container h = Inr (r, h1)"
  shows "next_container h \<le> next_container h1"
    and "slice_at h1 = slice_at h"
    and "service_at h1 = service_at h"
    and "next_slice h1 = next_slice h"
    and "next_service h1 = next_service h"
  using assms
  by (auto simp: GetContainers_body_def new_container_def Let_def
      split: option.splits sum.splits list.splits if_splits)

lemma GetContainers_body_fresh:
  assumes "GetContainers_body existing container h = Inr (r, h1)"
    and "next_container h \<le> p" and "p < next_container h1"
  shows "\<not> MonitoringStats (container_at h1 p)"
    and "StatHistory (container_at h1 p) = []"
  using assms
  by (auto simp: GetContainers_body_def new_container_def Let_def
      split: option.splits sum.splits list.splits if_splits)

lemma GetContainers_body_result:
  assumes "GetContainers_body existing container h = Inr (r, h1)"
  shows "case find (\<lambda>e. Container.ID (container_at h e) = types_Container.ID container) existing of
           Some e \<Rightarrow> r = e \<and> next_container h1 = next_container h
         | None \<Rightarrow> r = next_container h \<and> next_container h1 = Suc (next_container h)"
    and "Container.ID (container_at h1 r) = types_Container.ID container"
    and "Container (container_at h1 r) = container"
proof -
  show "case find (\<lambda>e. Container.ID (container_at h e) = types_Container.ID container) existing of
           Some e \<Rightarrow> r = e \<and> next_container h1 = next_container h
         | None \<Rightarrow> r = next_container h \<and> next_container h1 = Suc (next_container h)"
    using assms
    by (cases "find (\<lambda>e. Container.ID (container_at h e) = types_Container.ID container) existing")
       (auto simp: GetContainers_body_def new_container_def Let_def
          split: option.splits sum.splits list.splits if_splits)
  show "Container.ID (container_at h1 r) = types_Container.ID container"
    using assms
    by (cases "find (\<lambda>e. Container.ID (container_at h e) = types_Container.ID container) existing")
       (auto simp: GetContainers_body_def new_container_def Let_def
          split: option.splits sum.splits list.splits if_splits dest: find_Some_holds)
  show "Container (container_at h1 r) = container"
    using assms
    by (cases "find (\<lambda>e. Container.ID (container_at h e) = types_Container.ID container) existing")
       (auto simp: GetContainers_body_def new_container_def Let_def
          split: option.splits sum.splits list.splits if_splits)
qed

lemma GetContainers_loop_Cons:
  assumes "GetContainers_loop existing (container # containers) h = Inr (own, h2)"
  obtains r h1 rest where
    "GetContainers_body existing container h = Inr (r, h1)"
    "GetContainers_loop existing containers h1 = Inr (rest, h2)"
    "own = r # rest"
  using assms by (auto split: sum.splits)

lemma GetContainers_loop_frame:
  assumes "GetContainers_loop existing containers h = Inr (own, h2)"
  shows "next_container h \<le> next_container h2 \<and> slice_at h2 = slice_at h \<and>
         service_at h2 = service_at h \<and> next_slice h2 = next_slice h \<and>
         next_service h2 = next_service h \<and> length own = length containers"
  using assms
proof (induction containers arbitrary: h own)
  case Nil
  then show ?case by simp
next
  case (Cons container containers)
  from Cons.prems obtain r h1 rest where
    body: "GetContainers_body existing container h = Inr (r, h1)"
    and loop: "GetContainers_loop existing containers h1 = Inr (rest, h2)"
    and own: "own = r # rest"
    by (rule GetContainers_loop_Cons)
  show ?case
    using Cons.IH [OF loop] GetContainers_body_next [OF body] by (simp add: own)
qed

lemma GetContainers_loop_held:
  assumes "GetContainers_loop existing containers h = Inr (own, h2)"
    and "p < next_container h"
  shows "Container.ID (container_at h2 p) = Container.ID (container_at h p) \<and>
         MonitoringStats (container_at h2 p) = MonitoringStats (container_at h p) \<and>
         StatHistory (container_at h2 p) = StatHistory (container_at h p)"
  using assms
proof (induction containers arbitrary: h own)
  case Nil
  then show ?case by simp
next
  case (Cons container containers)
  from Cons.prems(1) obtain r h1 rest where
    body: "GetContainers_body existing container h = Inr (r, h1)"
    and loop: "GetContainers_loop existing containers h1 = Inr (rest, h2)"
    and own: "own = r # rest"
    by (rule GetContainers_loop_Cons)
  have "p < next_container h1"
    using GetContainers_body_next(1) [OF body] Cons.prems(2) by simp
  from Cons.IH [OF loop this] show ?case
    using GetContainers_body_held [OF body Cons.prems(2)] by simp
qed

lemma GetContainers_loop_fresh:
  assumes "GetContainers_loop existing containers h = Inr (own, h2)"
    and "next_container h \<le> p" and "p < next_container h2"
  shows "\<not> MonitoringStats (container_at h2 p) \<and> StatHistory (container_at h2 p) = []"
  using assms
proof (induction containers arbitrary: h own)
  case Nil
  then show ?case by simp
next
  case (Cons container containers)
  from Cons.prems(1) obtain r h1 rest where
    body: "GetContainers_body existing container h = Inr (r, h1)"
    and loop: "GetContainers_loop existing containers h1 = Inr (rest, h2)"
    and own: "own = r # rest"
    by (rule GetContainers_loop_Cons)
  show ?case
  proof (cases "p < next_container h1")
    case True
    then show ?thesis
      using GetContainers_loop_held [OF loop True]
        GetContainers_body_fresh [OF body Cons.prems(2) True] by simp
  next
    case False
    then show ?thesis
      using Cons.IH [OF loop _ Cons.prems(3)] by simp
  qed
qed

lemma GetContainers_loop_result:
  assumes "GetContainers_loop existing containers h = Inr (own, h2)"
    and "\<forall>e \<in> set existing. e < next_container h"
    and "i < length containers"
  shows "(case find (\<lambda>e. Container.ID (container_at h e) = types_Container.ID (containers ! i))
                existing of
            Some e \<Rightarrow> own ! i = e
          | None \<Rightarrow> next_container h \<le> own ! i \<and> own ! i < next_container h2) \<and>
         Container.ID (container_at h2 (own ! i)) = types_Container.ID (containers ! i)"
  using assms
proof (induction containers arbitrary: h own i)
  case Nil
  then show ?case by simp
next
  case (Cons container containers)
  from Cons.prems(1) obtain r h1 rest where
    body: "GetContainers_body existing container h = Inr (r, h1)"
    and loop: "GetContainers_loop existing containers h1 = Inr (rest, h2)"
    and own: "own = r # rest"
    by (rule GetContainers_loop_Cons)
  have grow: "next_container h \<le> next_container h1"
    by (rule GetContainers_body_next(1) [OF body])
  have grow2: "next_container h1 \<le> next_container h2"
    using GetContainers_loop_frame [OF loop] by simp
  have held1: "\<forall>e \<in> set existing. e < next_container h1"
    using Cons.prems(2) grow by auto
  have same_ids: "\<And>x. find (\<lambda>e. Container.ID (container_at h1 e) = x) existing =
                       find (\<lambda>e. Container.ID (container_at h e) = x) existing"
    using Cons.prems(2) GetContainers_body_held(1) [OF body]
    by (intro find_cong) auto
  show ?case
  proof (cases i)
    case 0
    have r: "case find (\<lambda>e. Container.ID (container_at h e) = types_Container.ID container) existing of
           Some e \<Rightarrow> r = e \<and> next_container h1 = next_container h
         | None \<Rightarrow> r = next_container h \<and> next_container h1 = Suc (next_container h)"
      by (rule GetContainers_body_result(1) [OF body])
    then have "r < next_container h1"
      using Cons.prems(2) by (auto split: option.splits dest: find_Some_holds)
    then have "Container.ID (container_at h2 r) = Container.ID (container_at h1 r)"
      using GetContainers_loop_held [OF loop] by simp
    then show ?thesis
      using r grow2 GetContainers_body_result(2) [OF body]
      by (auto simp: 0 own split: option.splits)
  next
    case (Suc k)
    then have "k < length containers" using Cons.prems(3) by simp
    from Cons.IH [OF loop held1 this] show ?thesis
      using grow by (auto simp: Suc own same_ids split: option.splits)
  qed
qed

lemma GetContainers_entries:
  assumes "GetContainers ext c h = Inr (own, h')"
    and "ContainerList ext = Inr fetched"
    and "\<forall>e \<in> set (slice_at h (Containers c)). e < next_container h"
  shows "length (slice_at h' own) = length fetched \<and>
    (\<forall>i < length fetched.
       Container.ID (container_at h' (slice_at h' own ! i)) = types_Container.ID (fetched ! i) \<and>
       (case find (\<lambda>e. Container.ID (container_at h e) = types_Container.ID (fetched ! i))
               (slice_at h (Containers c)) of
          Some e \<Rightarrow>
            slice_at h' own ! i = e \<and>
            MonitoringStats (container_at h' e) = MonitoringStats (container_at h e) \<and>
            StatHistory (container_at h' e) = StatHistory (container_at h e) \<and>
            length (StatHistory (container_at h e)) \<le> length (StatHistory (container_at h' e))
        | None \<Rightarrow>
            slice_at h' own ! i \<notin> set (slice_at h (Containers c)) \<and>
            next_container h \<le> slice_at h' own ! i \<and>
            \<not> MonitoringStats (container_at h' (slice_at h' own ! i)) \<and>
            StatHistory (container_at h' (slice_at h' own ! i)) = []))"
proof -
  let ?existing = "slice_at h (Containers c)"
  from assms(1,2) obtain refs h1 where
    loop: "GetContainers_loop ?existing fetched h = Inr (refs, h1)"
    and new: "new_slice refs h1 = (own, h')"
    by (auto simp: GetContainers_def split: sum.splits)
  have own: "slice_at h' own = refs" and objs: "container_at h' = container_at h1"
    using new by (auto simp: new_slice_def)
  have len: "length refs = length fetched"
    using GetContainers_loop_frame [OF loop] by simp
  have each: "Container.ID (container_at h1 (refs ! i)) = types_Container.ID (fetched ! i) \<and>
       (case find (\<lambda>e. Container.ID (container_at h e) = types_Container.ID (fetched ! i))
               ?existing of
          Some e \<Rightarrow>
            refs ! i = e \<and>
            MonitoringStats (container_at h1 e) = MonitoringStats (container_at h e) \<and>
            StatHistory (container_at h1 e) = StatHistory (container_at h e) \<and>
            length (StatHistory (container_at h e)) \<le> length (StatHistory (container_at h1 e))
        | None \<Rightarrow>
            refs ! i \<notin> set ?existing \<and>
            next_container h \<le> refs ! i \<and>
            \<not> MonitoringStats (container_at h1 (refs ! i)) \<and>
            StatHistory (container_at h1 (refs ! i)) = [])" if i: "i < length fetched" for i
  proof (cases "find (\<lambda>e. Container.ID (container_at h e) = types_Container.ID (fetched ! i)) ?existing")
    case None
    with GetContainers_loop_result [OF loop assms(3) i]
    have r: "next_container h \<le> refs ! i" "refs ! i < next_container h1"
      and id: "Container.ID (container_at h1 (refs ! i)) = types_Container.ID (fetched ! i)"
      by simp_all
    from r(1) assms(3) have "refs ! i \<notin> set ?existing" by auto
    then show ?thesis
      using None r id GetContainers_loop_fresh [OF loop r] by simp
  next
    case (Some e)
    with GetContainers_loop_result [OF loop assms(3) i]
    have r: "refs ! i = e"
      and id: "Container.ID (container_at h1 (refs ! i)) = types_Container.ID (fetched ! i)"
      by auto
    from Some have "e \<in> set ?existing" by (auto dest: find_Some_holds)
    with assms(3) have "e < next_container h" by simp
    from GetContainers_loop_held [OF loop this] show ?thesis
      using Some r id by simp
  qed
  show ?thesis
    unfolding own objs using len each by blast
qed

lemma GetContainers_held:
  assumes "GetContainers ext c h = Inr (own, h')"
    and "e < next_container h"
  shows "Container.ID (container_at h' e) = Container.ID (container_at h e) \<and>
         MonitoringStats (container_at h' e) = MonitoringStats (container_at h e) \<and>
         StatHistory (container_at h' e) = StatHistory (container_at h e)"
proof -
  from assms(1) obtain fetched refs h1 where
    loop: "GetContainers_loop (slice_at h (Containers c)) fetched h = Inr (refs, h1)"
    and new: "new_slice refs h1 = (own, h')"
    by (auto simp: GetContainers_def split: sum.splits)
  have "container_at h' = container_at h1"
    using new by (auto simp: new_slice_def)
  with GetContainers_loop_held [OF loop assms(2)] show ?thesis by simp
qed

text \<open>
  C1. When \<^verbatim>\<open>GetContainers\<close> succeeds, every container held before keeps its
  \<^verbatim>\<open>MonitoringStats\<close> flag and its stats history, and the result has one entry for each
  fetched container, carrying that container's ID. Where the fetched ID is the ID of a held
  container, the entry is a held object, the first with that ID: the flag is what it was
  before the call and the history is no shorter. Where it is not, the entry is an object
  allocated by this call, not one of the held ones, with the flag false and an empty
  history. The held containers are taken to be allocated objects.
\<close>

theorem GetContainers_identity_preservation:
  assumes "GetContainers ext c h = Inr (own, h')"
    and "ContainerList ext = Inr fetched"
    and "\<forall>e \<in> set (slice_at h (Containers c)). e < next_container h"
  shows "length (slice_at h' own) = length fetched \<and>
    (\<forall>e \<in> set (slice_at h (Containers c)).
       MonitoringStats (container_at h' e) = MonitoringStats (container_at h e) \<and>
       StatHistory (container_at h' e) = StatHistory (container_at h e)) \<and>
    (\<forall>i < length fetched.
       Container.ID (container_at h' (slice_at h' own ! i)) = types_Container.ID (fetched ! i) \<and>
       (types_Container.ID (fetched ! i)
          \<in> (\<lambda>e. Container.ID (container_at h e)) ` set (slice_at h (Containers c)) \<longrightarrow>
        find (\<lambda>e. Container.ID (container_at h e) = types_Container.ID (fetched ! i))
          (slice_at h (Containers c)) = Some (slice_at h' own ! i) \<and>
        slice_at h' own ! i \<in> set (slice_at h (Containers c)) \<and>
        MonitoringStats (container_at h' (slice_at h' own ! i)) =
          MonitoringStats (container_at h (slice_at h' own ! i)) \<and>
        length (StatHistory (container_at h (slice_at h' own ! i)))
          \<le> length (StatHistory (container_at h' (slice_at h' own ! i)))) \<and>
       (types_Container.ID (fetched ! i)
          \<notin> (\<lambda>e. Container.ID (container_at h e)) ` set (slice_at h (Containers c)) \<longrightarrow>
        slice_at h' own ! i \<notin> set (slice_at h (Containers c)) \<and>
        next_container h \<le> slice_at h' own ! i \<and>
        \<not> MonitoringStats (container_at h' (slice_at h' own ! i)) \<and>
        StatHistory (container_at h' (slice_at h' own ! i)) = []))"
proof (intro conjI ballI allI impI)
  show "length (slice_at h' own) = length fetched"
    using GetContainers_entries [OF assms] by (rule conjunct1)
next
  fix e
  assume "e \<in> set (slice_at h (Containers c))"
  with assms(3) have "e < next_container h" by simp
  from GetContainers_held [OF assms(1) this]
  show "MonitoringStats (container_at h' e) = MonitoringStats (container_at h e)"
    and "StatHistory (container_at h' e) = StatHistory (container_at h e)"
    by simp_all
next
  fix i
  assume i: "i < length fetched"
  let ?held = "slice_at h (Containers c)"
  let ?same = "\<lambda>e. Container.ID (container_at h e) = types_Container.ID (fetched ! i)"
  let ?r = "slice_at h' own ! i"
  note entry = GetContainers_entries [OF assms, THEN conjunct2, rule_format, OF i]
  show "Container.ID (container_at h' ?r) = types_Container.ID (fetched ! i)"
    using entry by (rule conjunct1)
  { assume "types_Container.ID (fetched ! i) \<in> (\<lambda>e. Container.ID (container_at h e)) ` set ?held"
    then have "find ?same ?held \<noteq> None"
      by (auto simp: find_None_iff)
    then obtain e where found: "find ?same ?held = Some e" by blast
    with entry have reused: "?r = e"
      "MonitoringStats (container_at h' e) = MonitoringStats (container_at h e)"
      "length (StatHistory (container_at h e)) \<le> length (StatHistory (container_at h' e))"
      by simp_all
    from found have "e \<in> set ?held" by (auto dest: find_Some_holds)
    with found reused
    show "find ?same ?held = Some ?r" and "?r \<in> set ?held"
      and "MonitoringStats (container_at h' ?r) = MonitoringStats (container_at h ?r)"
      and "length (StatHistory (container_at h ?r)) \<le> length (StatHistory (container_at h' ?r))"
      by simp_all }
  { assume "types_Container.ID (fetched ! i) \<notin> (\<lambda>e. Container.ID (container_at h e)) ` set ?held"
    then have "find ?same ?held = None"
      unfolding find_None_iff by (metis imageI)
    with entry
    show "?r \<notin> set ?held" and "next_container h \<le> ?r"
      and "\<not> MonitoringStats (container_at h' ?r)"
      and "StatHistory (container_at h' ?r) = []"
      by simp_all }
qed

theorem GetContainers_identity_preservation_witness:
  "ContainerList ex_externals = Inr ex_fetched \<and>
   set (slice_at ex_store (Containers ex_command)) \<subseteq> {..<next_container ex_store} \<and>
   map (\<lambda>e. Container.ID (container_at ex_store e)) (slice_at ex_store (Containers ex_command))
     = [''1'', ''2'', ''3''] \<and>
   map types_Container.ID ex_fetched = [''1'', ''9''] \<and>
   MonitoringStats (container_at ex_store 0) \<and>
   StatHistory (container_at ex_store 0) = [\<lparr>ClientStats = ''{}'', RecordedAt = 7\<rparr>] \<and>
   (case GetContainers ex_externals ex_command ex_store of
      Inl e \<Rightarrow> False
    | Inr (own, h') \<Rightarrow>
        slice_at h' own = [0, 3] \<and>
        MonitoringStats (container_at h' 0) \<and>
        StatHistory (container_at h' 0) = [\<lparr>ClientStats = ''{}'', RecordedAt = 7\<rparr>] \<and>
        Name (container_at h' 0) = ''web_1'' \<and>
        State (Container (container_at h' 0)) = ''exited'' \<and>
        \<not> MonitoringStats (container_at h' 3) \<and>
        StatHistory (container_at h' 3) = [] \<and>
        Name (container_at h' 3) = ''cache'')"
proof -
  have listed: "ContainerList ex_externals = Inr ex_fetched"
    by (simp add: ex_externals_def)
  have held: "\<forall>e \<in> set (slice_at ex_store (Containers ex_command)). e < next_container ex_store"
    by (simp add: ex_store_def ex_command_def)
  have ids: "map (\<lambda>e. Container.ID (container_at ex_store e)) (slice_at ex_store (Containers ex_command))
      = [''1'', ''2'', ''3'']"
    and fetched: "map types_Container.ID ex_fetched = [''1'', ''9'']"
    and before: "MonitoringStats (container_at ex_store 0)"
      "StatHistory (container_at ex_store 0) = [\<lparr>ClientStats = ''{}'', RecordedAt = 7\<rparr>]"
    by (simp_all add: ex_fetched_def ex_store_def ex_command_def ex_container_def)
  obtain own h' where run: "GetContainers ex_externals ex_command ex_store = Inr (own, h')"
    by (simp add: GetContainers_def GetContainers_body_def new_container_def new_slice_def
        ex_externals_def ex_fetched_def ex_store_def ex_command_def ex_container_def)
  have own: "slice_at h' own = [0, 3]"
    and observed: "Name (container_at h' 0) = ''web_1''"
      "State (Container (container_at h' 0)) = ''exited''"
      "Name (container_at h' 3) = ''cache''"
    using run
    by (auto simp: GetContainers_def GetContainers_body_def new_container_def new_slice_def
        ex_externals_def ex_fetched_def ex_store_def ex_command_def ex_container_def
        TrimLeft_def index_map_def)
  have known: "types_Container.ID (ex_fetched ! 0)
      \<in> (\<lambda>e. Container.ID (container_at ex_store e)) ` set (slice_at ex_store (Containers ex_command))"
    and unknown: "types_Container.ID (ex_fetched ! 1)
      \<notin> (\<lambda>e. Container.ID (container_at ex_store e)) ` set (slice_at ex_store (Containers ex_command))"
    by (simp_all add: ex_fetched_def ex_store_def ex_command_def ex_container_def)
  note all = GetContainers_identity_preservation [OF run listed held]
  have "(0 :: nat) \<in> set (slice_at ex_store (Containers ex_command))"
    by (simp add: ex_store_def ex_command_def)
  with all have kept: "MonitoringStats (container_at h' 0) = MonitoringStats (container_at ex_store 0)"
      "StatHistory (container_at h' 0) = StatHistory (container_at ex_store 0)"
    by blast+
  have "(1 :: nat) < length ex_fetched" by (simp add: ex_fetched_def)
  with all unknown have created:
    "\<not> MonitoringStats (container_at h' (slice_at h' own ! 1))"
    "StatHistory (container_at h' (slice_at h' own ! 1)) = []"
    by blast+
  from kept created show ?thesis
    using listed held ids fetched before run own observed
    by auto
qed

section \<open>Services and standalone containers\<close>

lemma assignContainersToServices_inner_frame:
  "container_at (assignContainersToServices_inner service containers h) = container_at h"
  "slice_at (assignContainersToServices_inner service containers h) = slice_at h"
  "next_container (assignContainersToServices_inner service containers h) = next_container h"
  "next_slice (assignContainersToServices_inner service containers h) = next_slice h"
  "next_service (assignContainersToServices_inner service containers h) = next_service h"
  by (induction containers) simp_all

lemma assignContainersToServices_inner_services:
  "service_at (assignContainersToServices_inner service containers h) =
     (service_at h)(service := (service_at h service)
        \<lparr>Service.Container :=
           find (\<lambda>container. \<not> OneOff (container_at h container) \<and>
                   ServiceName (container_at h container) = Service.Name (service_at h service))
             containers\<rparr>)"
  by (induction containers) simp_all

lemma assignContainersToServices_loop_frame:
  "container_at (assignContainersToServices_loop containers services h) = container_at h"
  "slice_at (assignContainersToServices_loop containers services h) = slice_at h"
  "next_container (assignContainersToServices_loop containers services h) = next_container h"
  "next_slice (assignContainersToServices_loop containers services h) = next_slice h"
  "next_service (assignContainersToServices_loop containers services h) = next_service h"
  by (induction services arbitrary: h) (simp_all add: assignContainersToServices_inner_frame)

lemma assignContainersToServices_loop_names:
  "Service.Name (service_at (assignContainersToServices_loop containers services h) s) =
     Service.Name (service_at h s)"
  "Service.ID (service_at (assignContainersToServices_loop containers services h) s) =
     Service.ID (service_at h s)"
  by (induction services arbitrary: h) (simp_all add: assignContainersToServices_inner_services)

lemma assignContainersToServices_loop_other:
  "s \<notin> set services \<Longrightarrow>
   service_at (assignContainersToServices_loop containers services h) s = service_at h s"
  by (induction services arbitrary: h) (simp_all add: assignContainersToServices_inner_services)

lemma assignContainersToServices_loop_assigned:
  "s \<in> set services \<Longrightarrow>
   Service.Container (service_at (assignContainersToServices_loop containers services h) s) =
     find (\<lambda>container. \<not> OneOff (container_at h container) \<and>
             ServiceName (container_at h container) = Service.Name (service_at h s))
       containers"
proof (induction services arbitrary: h)
  case Nil
  then show ?case by simp
next
  case (Cons service services)
  let ?h1 = "assignContainersToServices_inner service containers h"
  show ?case
  proof (cases "s \<in> set services")
    case True
    then show ?thesis
      using Cons.IH [of ?h1] by (simp add: assignContainersToServices_inner_frame assignContainersToServices_inner_services)
  next
    case False
    with Cons.prems have "s = service" by simp
    then show ?thesis
      using False by (simp add: assignContainersToServices_loop_other assignContainersToServices_inner_services)
  qed
qed

text \<open>
  C2. After \<^verbatim>\<open>assignContainersToServices\<close>, every service of the list refers to the first
  container of the list that is not one-off and carries the service's name, and to nil
  when there is none; a container it refers to is in the list, is not one-off and has the
  service's name as its \<^verbatim>\<open>ServiceName\<close>.
\<close>

theorem assignContainersToServices_first_match:
  assumes "service \<in> set (range_of services)"
  shows "Service.Container (service_at (assignContainersToServices containers services h) service) =
           find (\<lambda>container. \<not> OneOff (container_at h container) \<and>
                   ServiceName (container_at h container) = Service.Name (service_at h service))
             (slice_at h containers) \<and>
         ((\<forall>container \<in> set (slice_at h containers).
             OneOff (container_at h container) \<or>
             ServiceName (container_at h container) \<noteq> Service.Name (service_at h service)) \<longrightarrow>
          Service.Container (service_at (assignContainersToServices containers services h) service)
            = None) \<and>
         (\<forall>container.
            Service.Container (service_at (assignContainersToServices containers services h) service)
              = Some container \<longrightarrow>
            container \<in> set (slice_at h containers) \<and>
            \<not> OneOff (container_at (assignContainersToServices containers services h) container) \<and>
            ServiceName (container_at (assignContainersToServices containers services h) container) =
              Service.Name (service_at (assignContainersToServices containers services h) service))"
  using assms
  by (auto simp: assignContainersToServices_def assignContainersToServices_loop_assigned
      assignContainersToServices_loop_frame assignContainersToServices_loop_names
      find_Some_iff find_None_iff)

theorem assignContainersToServices_first_match_witness:
  "0 \<in> set (range_of (Some [0, 1, 2])) \<and> 2 \<in> set (range_of (Some [0, 1, 2])) \<and>
   Service.Container (service_at (assignContainersToServices 0 (Some [0, 1, 2]) ex_store) 0) = Some 0 \<and>
   0 \<in> set (slice_at ex_store 0) \<and>
   \<not> OneOff (container_at (assignContainersToServices 0 (Some [0, 1, 2]) ex_store) 0) \<and>
   ServiceName (container_at (assignContainersToServices 0 (Some [0, 1, 2]) ex_store) 0) =
     Service.Name (service_at (assignContainersToServices 0 (Some [0, 1, 2]) ex_store) 0) \<and>
   Service.Container (service_at ex_store 2) = Some 2 \<and>
   Service.Container (service_at (assignContainersToServices 0 (Some [0, 1, 2]) ex_store) 2) = None"
proof -
  have listed: "0 \<in> set (range_of (Some [0, 1, 2]))" "2 \<in> set (range_of (Some [0, 1, 2]))"
    by (simp_all add: range_of_def)
  have web: "find (\<lambda>container. \<not> OneOff (container_at ex_store container) \<and>
                ServiceName (container_at ex_store container) = Service.Name (service_at ex_store 0))
              (slice_at ex_store 0) = Some 0"
    and cache: "find (\<lambda>container. \<not> OneOff (container_at ex_store container) \<and>
                ServiceName (container_at ex_store container) = Service.Name (service_at ex_store 2))
              (slice_at ex_store 0) = None"
    and stale: "Service.Container (service_at ex_store 2) = Some 2"
    by (simp_all add: ex_store_def ex_container_def)
  from assignContainersToServices_first_match [OF listed(1), of 0 ex_store]
    assignContainersToServices_first_match [OF listed(2), of 0 ex_store]
  show ?thesis
    using listed stale by (simp add: web cache)
qed

lemma obtainStandaloneContainers_elements:
  "elements (obtainStandaloneContainers containers services h) =
     filter (\<lambda>container.
               OneOff (container_at h container) \<or>
               ServiceName (container_at h container) = [] \<or>
               (\<forall>service \<in> set (range_of services).
                  Service.Name (service_at h service) \<noteq> ServiceName (container_at h container)))
       (slice_at h containers)"
proof -
  have "elements (obtainStandaloneContainers containers services h) =
     filter (\<lambda>container.
          \<not> list_ex
              (\<lambda>service.
                 \<not> OneOff (container_at h container) \<and>
                 ServiceName (container_at h container) \<noteq> [] \<and>
                 ServiceName (container_at h container) = Service.Name (service_at h service))
              (range_of services))
       (slice_at h containers)"
    by (simp add: elements_def obtainStandaloneContainers_def new_slice_simps)
  also have "\<dots> = filter (\<lambda>container.
               OneOff (container_at h container) \<or>
               ServiceName (container_at h container) = [] \<or>
               (\<forall>service \<in> set (range_of services).
                  Service.Name (service_at h service) \<noteq> ServiceName (container_at h container)))
       (slice_at h containers)"
    by (rule filter_cong) (auto simp: list_ex_iff)
  finally show ?thesis .
qed

lemma obtainStandaloneContainers_frame:
  "container_at (snd (obtainStandaloneContainers containers services h)) = container_at h"
  "service_at (snd (obtainStandaloneContainers containers services h)) = service_at h"
  "fst (obtainStandaloneContainers containers services h) = next_slice h"
  "s \<noteq> next_slice h \<Longrightarrow>
     slice_at (snd (obtainStandaloneContainers containers services h)) s = slice_at h s"
  by (simp_all add: obtainStandaloneContainers_def new_slice_simps)

lemma assigned_iff:
  "container \<in> assigned services (assignContainersToServices containers services h) \<longleftrightarrow>
     (\<exists>service \<in> set (range_of services).
        find (\<lambda>container. \<not> OneOff (container_at h container) \<and>
                ServiceName (container_at h container) = Service.Name (service_at h service))
          (slice_at h containers) = Some container)"
  by (auto simp: assigned_def assignContainersToServices_def assignContainersToServices_loop_assigned)

lemma assigned_not_OneOff:
  "container \<in> assigned services (assignContainersToServices containers services h) \<Longrightarrow>
   \<not> OneOff (container_at h container) \<and> container \<in> set (slice_at h containers) \<and>
   (\<exists>service \<in> set (range_of services).
      Service.Name (service_at h service) = ServiceName (container_at h container))"
  by (auto simp: assigned_iff find_Some_iff)

text \<open>
  C3. \<^verbatim>\<open>obtainStandaloneContainers\<close> returns, in the order of its input, exactly the
  containers that are one-off, or have an empty \<^verbatim>\<open>ServiceName\<close>, or whose \<^verbatim>\<open>ServiceName\<close>
  is the name of no service of the list. A one-off container without a service name is in
  the result whatever the services are, and no service refers to it after
  \<^verbatim>\<open>assignContainersToServices\<close>.
\<close>

theorem obtainStandaloneContainers_exact:
  "elements (obtainStandaloneContainers containers services h) =
     filter (\<lambda>container.
               OneOff (container_at h container) \<or>
               ServiceName (container_at h container) = [] \<or>
               (\<forall>service \<in> set (range_of services).
                  Service.Name (service_at h service) \<noteq> ServiceName (container_at h container)))
       (slice_at h containers) \<and>
   (\<forall>container \<in> set (slice_at h containers).
      OneOff (container_at h container) \<and> ServiceName (container_at h container) = [] \<longrightarrow>
      container \<in> set (elements (obtainStandaloneContainers containers services h)) \<and>
      container \<notin> assigned services (assignContainersToServices containers services h))"
proof (intro conjI ballI impI)
  show "elements (obtainStandaloneContainers containers services h) =
     filter (\<lambda>container.
               OneOff (container_at h container) \<or>
               ServiceName (container_at h container) = [] \<or>
               (\<forall>service \<in> set (range_of services).
                  Service.Name (service_at h service) \<noteq> ServiceName (container_at h container)))
       (slice_at h containers)"
    by (rule obtainStandaloneContainers_elements)
next
  fix container
  assume "container \<in> set (slice_at h containers)"
    and "OneOff (container_at h container) \<and> ServiceName (container_at h container) = []"
  then show "container \<in> set (elements (obtainStandaloneContainers containers services h))"
    by (simp add: obtainStandaloneContainers_elements)
next
  fix container
  assume "OneOff (container_at h container) \<and> ServiceName (container_at h container) = []"
  then show "container \<notin> assigned services (assignContainersToServices containers services h)"
    using assigned_not_OneOff [of container services containers h] by blast
qed

theorem obtainStandaloneContainers_exact_witness:
  "2 \<in> set (slice_at ex_store 0) \<and> OneOff (container_at ex_store 2) \<and>
   ServiceName (container_at ex_store 2) = [] \<and>
   elements (obtainStandaloneContainers 0 (Some [0, 1]) ex_store) = [2] \<and>
   2 \<in> set (elements (obtainStandaloneContainers 0 (Some [0, 1]) ex_store)) \<and>
   2 \<notin> assigned (Some [0, 1]) (assignContainersToServices 0 (Some [0, 1]) ex_store)"
proof -
  have job: "2 \<in> set (slice_at ex_store 0)" "OneOff (container_at ex_store 2)"
    "ServiceName (container_at ex_store 2) = []"
    by (simp_all add: ex_store_def ex_container_def)
  have kept: "filter (\<lambda>container.
               OneOff (container_at ex_store container) \<or>
               ServiceName (container_at ex_store container) = [] \<or>
               (\<forall>service \<in> set (range_of (Some [0, 1])).
                  Service.Name (service_at ex_store service)
                    \<noteq> ServiceName (container_at ex_store container)))
       (slice_at ex_store 0) = [2]"
    by (simp add: range_of_def ex_store_def ex_container_def)
  from obtainStandaloneContainers_exact [of 0 "Some [0, 1]" ex_store]
  have "elements (obtainStandaloneContainers 0 (Some [0, 1]) ex_store) = [2]"
    and "2 \<in> set (elements (obtainStandaloneContainers 0 (Some [0, 1]) ex_store)) \<and>
         2 \<notin> assigned (Some [0, 1]) (assignContainersToServices 0 (Some [0, 1]) ex_store)"
    using job unfolding kept by blast+
  with job show ?thesis by simp
qed

text \<open>
  C4, as the code has it. The assigned containers and the standalone containers are both
  among the input containers. They overlap exactly when some service of the list has the
  empty name and some input container that is not one-off has no service name. Together
  they are all of the input containers exactly when no two different input containers
  that are not one-off carry the same name of a listed service: a second container of a
  service is neither assigned nor standalone.
\<close>

theorem standalone_partition:
  "(assigned services (assignContainersToServices containers services h) \<inter>
      set (elements (obtainStandaloneContainers containers services
                       (assignContainersToServices containers services h))) = {}
    \<longleftrightarrow>
    \<not> ((\<exists>service \<in> set (range_of services). Service.Name (service_at h service) = []) \<and>
       (\<exists>container \<in> set (slice_at h containers).
          \<not> OneOff (container_at h container) \<and> ServiceName (container_at h container) = []))) \<and>
   assigned services (assignContainersToServices containers services h) \<union>
     set (elements (obtainStandaloneContainers containers services
                      (assignContainersToServices containers services h)))
     \<subseteq> set (slice_at h containers) \<and>
   (assigned services (assignContainersToServices containers services h) \<union>
      set (elements (obtainStandaloneContainers containers services
                       (assignContainersToServices containers services h)))
      = set (slice_at h containers)
    \<longleftrightarrow>
    (\<forall>a \<in> set (slice_at h containers). \<forall>b \<in> set (slice_at h containers).
       \<not> OneOff (container_at h a) \<and> \<not> OneOff (container_at h b) \<and>
       ServiceName (container_at h a) = ServiceName (container_at h b) \<and>
       ServiceName (container_at h a) \<noteq> [] \<and>
       (\<exists>service \<in> set (range_of services).
          Service.Name (service_at h service) = ServiceName (container_at h a)) \<longrightarrow> a = b))"
proof -
  let ?h1 = "assignContainersToServices containers services h"
  let ?A = "assigned services ?h1"
  let ?cs = "slice_at h containers"
  let ?ss = "range_of services"
  let ?standalone = "\<lambda>container. OneOff (container_at h container) \<or>
               ServiceName (container_at h container) = [] \<or>
               (\<forall>service \<in> set ?ss.
                  Service.Name (service_at h service) \<noteq> ServiceName (container_at h container))"
  let ?match = "\<lambda>service container. \<not> OneOff (container_at h container) \<and>
                ServiceName (container_at h container) = Service.Name (service_at h service)"
  have S: "set (elements (obtainStandaloneContainers containers services ?h1)) =
             {container \<in> set ?cs. ?standalone container}"
    by (simp add: obtainStandaloneContainers_elements assignContainersToServices_def
        assignContainersToServices_loop_frame assignContainersToServices_loop_names)
  have A: "container \<in> ?A \<longleftrightarrow>
      (\<exists>service \<in> set ?ss. find (?match service) ?cs = Some container)" for container
    by (rule assigned_iff)
  have first: "\<exists>first. find (?match service) ?cs = Some first"
    if "container \<in> set ?cs" "?match service container" for service container
    using that by (cases "find (?match service) ?cs") (auto simp: find_None_iff)
  have found: "first \<in> set ?cs \<and> ?match service first"
    if "find (?match service) ?cs = Some first" for service first
    using that by (auto dest: find_Some_holds)
  have within: "?A \<union> {container \<in> set ?cs. ?standalone container} \<subseteq> set ?cs"
    using A found by blast
  have disjoint: "?A \<inter> {container \<in> set ?cs. ?standalone container} = {} \<longleftrightarrow>
    \<not> ((\<exists>service \<in> set ?ss. Service.Name (service_at h service) = []) \<and>
       (\<exists>container \<in> set ?cs.
          \<not> OneOff (container_at h container) \<and> ServiceName (container_at h container) = []))"
  proof
    assume empty: "?A \<inter> {container \<in> set ?cs. ?standalone container} = {}"
    show "\<not> ((\<exists>service \<in> set ?ss. Service.Name (service_at h service) = []) \<and>
       (\<exists>container \<in> set ?cs.
          \<not> OneOff (container_at h container) \<and> ServiceName (container_at h container) = []))"
    proof
      assume "(\<exists>service \<in> set ?ss. Service.Name (service_at h service) = []) \<and>
       (\<exists>container \<in> set ?cs.
          \<not> OneOff (container_at h container) \<and> ServiceName (container_at h container) = [])"
      then obtain service container where sv: "service \<in> set ?ss"
        and nm: "Service.Name (service_at h service) = []"
        and c: "container \<in> set ?cs" "?match service container"
        by auto
      from first [OF c] obtain x where x: "find (?match service) ?cs = Some x" by blast
      from found [OF x] nm have "x \<in> set ?cs" "?standalone x" by auto
      moreover from x sv have "x \<in> ?A" unfolding A by blast
      ultimately show False using empty by blast
    qed
  next
    assume none: "\<not> ((\<exists>service \<in> set ?ss. Service.Name (service_at h service) = []) \<and>
       (\<exists>container \<in> set ?cs.
          \<not> OneOff (container_at h container) \<and> ServiceName (container_at h container) = []))"
    { fix container
      assume a: "container \<in> ?A" and s: "?standalone container"
      from a obtain service where sv: "service \<in> set ?ss"
        and f: "find (?match service) ?cs = Some container"
        unfolding A by blast
      from found [OF f] have m: "container \<in> set ?cs" "?match service container" by simp_all
      with s sv have "ServiceName (container_at h container) = []" by auto
      with m sv none have False by auto }
    then show "?A \<inter> {container \<in> set ?cs. ?standalone container} = {}" by blast
  qed
  have whole: "?A \<union> {container \<in> set ?cs. ?standalone container} = set ?cs \<longleftrightarrow>
    (\<forall>a \<in> set ?cs. \<forall>b \<in> set ?cs.
       \<not> OneOff (container_at h a) \<and> \<not> OneOff (container_at h b) \<and>
       ServiceName (container_at h a) = ServiceName (container_at h b) \<and>
       ServiceName (container_at h a) \<noteq> [] \<and>
       (\<exists>service \<in> set ?ss.
          Service.Name (service_at h service) = ServiceName (container_at h a)) \<longrightarrow> a = b)"
  proof
    assume all: "?A \<union> {container \<in> set ?cs. ?standalone container} = set ?cs"
    show "\<forall>a \<in> set ?cs. \<forall>b \<in> set ?cs.
       \<not> OneOff (container_at h a) \<and> \<not> OneOff (container_at h b) \<and>
       ServiceName (container_at h a) = ServiceName (container_at h b) \<and>
       ServiceName (container_at h a) \<noteq> [] \<and>
       (\<exists>service \<in> set ?ss.
          Service.Name (service_at h service) = ServiceName (container_at h a)) \<longrightarrow> a = b"
    proof (intro ballI impI)
      fix a b
      assume a: "a \<in> set ?cs" and b: "b \<in> set ?cs"
        and ab: "\<not> OneOff (container_at h a) \<and> \<not> OneOff (container_at h b) \<and>
          ServiceName (container_at h a) = ServiceName (container_at h b) \<and>
          ServiceName (container_at h a) \<noteq> [] \<and>
          (\<exists>service \<in> set ?ss.
             Service.Name (service_at h service) = ServiceName (container_at h a))"
      have nsa: "\<not> ?standalone a" and nsb: "\<not> ?standalone b" using ab by auto
      from a b have "a \<in> ?A \<union> {container \<in> set ?cs. ?standalone container}"
        and "b \<in> ?A \<union> {container \<in> set ?cs. ?standalone container}"
        unfolding all by simp_all
      with nsa nsb have "a \<in> ?A" "b \<in> ?A" by blast+
      then obtain s t where s: "s \<in> set ?ss" "find (?match s) ?cs = Some a"
        and t: "t \<in> set ?ss" "find (?match t) ?cs = Some b"
        unfolding A by blast
      from found [OF s(2)] found [OF t(2)] ab
      have "Service.Name (service_at h s) = Service.Name (service_at h t)" by simp
      then have "find (?match s) ?cs = find (?match t) ?cs" by simp
      with s(2) t(2) show "a = b" by simp
    qed
  next
    assume single: "\<forall>a \<in> set ?cs. \<forall>b \<in> set ?cs.
       \<not> OneOff (container_at h a) \<and> \<not> OneOff (container_at h b) \<and>
       ServiceName (container_at h a) = ServiceName (container_at h b) \<and>
       ServiceName (container_at h a) \<noteq> [] \<and>
       (\<exists>service \<in> set ?ss.
          Service.Name (service_at h service) = ServiceName (container_at h a)) \<longrightarrow> a = b"
    { fix container
      assume mem: "container \<in> set ?cs" and ns: "\<not> ?standalone container"
      then obtain service where sv: "service \<in> set ?ss"
        and m: "?match service container"
        and ne: "ServiceName (container_at h container) \<noteq> []"
        by auto
      from first [OF mem m] obtain x where x: "find (?match service) ?cs = Some x" by blast
      from found [OF x] have xm: "x \<in> set ?cs" "?match service x" by simp_all
      have "x = container"
        by (rule single [rule_format, OF xm(1) mem]) (use xm(2) m ne sv in auto)
      with x sv have "container \<in> ?A" unfolding A by blast }
    with within show "?A \<union> {container \<in> set ?cs. ?standalone container} = set ?cs" by blast
  qed
  show ?thesis
    unfolding S using disjoint within whole by (intro conjI)
qed

theorem standalone_partition_witness:
  "map (\<lambda>service. Service.Name (service_at ex_store service)) (range_of (Some [0, 1]))
     = [''web'', ''db''] \<and>
   map (\<lambda>a. (OneOff (container_at ex_store a), ServiceName (container_at ex_store a)))
     (slice_at ex_store 0) = [(False, ''web''), (False, ''db''), (True, [])] \<and>
   assigned (Some [0, 1]) (assignContainersToServices 0 (Some [0, 1]) ex_store) \<inter>
     set (elements (obtainStandaloneContainers 0 (Some [0, 1])
                      (assignContainersToServices 0 (Some [0, 1]) ex_store))) = {} \<and>
   assigned (Some [0, 1]) (assignContainersToServices 0 (Some [0, 1]) ex_store) \<union>
     set (elements (obtainStandaloneContainers 0 (Some [0, 1])
                      (assignContainersToServices 0 (Some [0, 1]) ex_store)))
     = set (slice_at ex_store 0)"
proof -
  have named: "\<not> ((\<exists>service \<in> set (range_of (Some [0, 1])).
                    Service.Name (service_at ex_store service) = []) \<and>
       (\<exists>container \<in> set (slice_at ex_store 0).
          \<not> OneOff (container_at ex_store container) \<and>
          ServiceName (container_at ex_store container) = []))"
    by (simp add: range_of_def ex_store_def)
  have single: "\<forall>a \<in> set (slice_at ex_store 0). \<forall>b \<in> set (slice_at ex_store 0).
      \<not> OneOff (container_at ex_store a) \<and> \<not> OneOff (container_at ex_store b) \<and>
      ServiceName (container_at ex_store a) = ServiceName (container_at ex_store b) \<and>
      ServiceName (container_at ex_store a) \<noteq> [] \<and>
      (\<exists>service \<in> set (range_of (Some [0, 1])).
         Service.Name (service_at ex_store service) = ServiceName (container_at ex_store a))
      \<longrightarrow> a = b"
    by (simp add: ex_store_def ex_container_def)
  note partition = standalone_partition [of "Some [0, 1]" 0 ex_store]
  note disjoint = partition [THEN conjunct1, THEN iffD2, OF named]
  note whole = partition [THEN conjunct2, THEN conjunct2, THEN iffD2, OF single]
  have names: "map (\<lambda>service. Service.Name (service_at ex_store service)) (range_of (Some [0, 1]))
     = [''web'', ''db'']"
    and labels: "map (\<lambda>a. (OneOff (container_at ex_store a), ServiceName (container_at ex_store a)))
     (slice_at ex_store 0) = [(False, ''web''), (False, ''db''), (True, [])]"
    by (simp_all add: range_of_def ex_store_def ex_container_def)
  from names labels disjoint whole show ?thesis
    by (intro conjI)
qed

text \<open>
  C4 as stated fails: with a service scaled to two containers the second container is in
  neither set, and with a service of the empty name a container without service label is
  in both.
\<close>

theorem standalone_partition_counterexample:
  "assigned (Some [0]) (assignContainersToServices 0 (Some [0]) ex_scaled_store) \<union>
     set (elements (obtainStandaloneContainers 0 (Some [0])
                      (assignContainersToServices 0 (Some [0]) ex_scaled_store)))
     \<noteq> set (slice_at ex_scaled_store 0) \<and>
   assigned (Some [0]) (assignContainersToServices 0 (Some [0]) ex_unnamed_store) \<inter>
     set (elements (obtainStandaloneContainers 0 (Some [0])
                      (assignContainersToServices 0 (Some [0]) ex_unnamed_store)))
     \<noteq> {}"
proof -
  have "assigned (Some [0]) (assignContainersToServices 0 (Some [0]) ex_scaled_store) = {0}"
    by (auto simp: assigned_def assignContainersToServices_def range_of_def ex_scaled_store_def
        ex_container_def)
  moreover have "elements (obtainStandaloneContainers 0 (Some [0])
                      (assignContainersToServices 0 (Some [0]) ex_scaled_store)) = []"
    by (simp add: elements_def obtainStandaloneContainers_def new_slice_def
        assignContainersToServices_def range_of_def ex_scaled_store_def ex_container_def)
  moreover have "set (slice_at ex_scaled_store 0) = {0, 1}"
    by (simp add: ex_scaled_store_def)
  moreover have "assigned (Some [0]) (assignContainersToServices 0 (Some [0]) ex_unnamed_store) = {0}"
    by (auto simp: assigned_def assignContainersToServices_def range_of_def ex_unnamed_store_def
        ex_container_def)
  moreover have "elements (obtainStandaloneContainers 0 (Some [0])
                      (assignContainersToServices 0 (Some [0]) ex_unnamed_store)) = [0]"
    by (simp add: elements_def obtainStandaloneContainers_def new_slice_def
        assignContainersToServices_def range_of_def ex_unnamed_store_def ex_container_def)
  ultimately show ?thesis by simp
qed

section \<open>GetServices and the lines it parses\<close>

lemma Split_not_Nil: "Split s sep \<noteq> []"
  by (induction s) simp_all

lemma length_Split: "length (Split s sep) = Suc (count_list s sep)"
proof (induction s)
  case Nil
  then show ?case by simp
next
  case (Cons ch s)
  have "length (tl (Split s sep)) = count_list s sep"
    using Cons.IH by simp
  with Cons.IH show ?case by simp
qed

lemma Split_single_field: "length (Split s sep) \<le> Suc 0 \<longleftrightarrow> sep \<notin> set s"
  by (simp add: length_Split count_list_0_iff)

lemma new_service_simps:
  "fst (new_service obj h) = next_service h"
  "service_at (snd (new_service obj h)) = (service_at h)(next_service h := obj)"
  "next_service (snd (new_service obj h)) = Suc (next_service h)"
  "container_at (snd (new_service obj h)) = container_at h"
  "slice_at (snd (new_service obj h)) = slice_at h"
  "next_container (snd (new_service obj h)) = next_container h"
  "next_slice (snd (new_service obj h)) = next_slice h"
  by (simp_all add: new_service_def)

lemma GetServices_loop_panics:
  "\<exists>line \<in> set lines. CHR '' '' \<notin> set line \<Longrightarrow> GetServices_loop lines h = Inl PanicIndexOutOfRange"
proof (induction lines arbitrary: h)
  case Nil
  then show ?case by simp
next
  case (Cons str lines)
  show ?case
  proof (cases "CHR '' '' \<in> set str")
    case False
    then show ?thesis by (simp add: Split_single_field Let_def)
  next
    case True
    with Cons.prems have "\<exists>line \<in> set lines. CHR '' '' \<notin> set line" by auto
    from Cons.IH [OF this] True show ?thesis
      by (simp add: Split_single_field Let_def split: prod.splits)
  qed
qed

lemma GetServices_loop_returns:
  "\<forall>line \<in> set lines. CHR '' '' \<in> set line \<Longrightarrow>
   \<exists>h'. GetServices_loop lines h = Inr ([next_service h ..< next_service h + length lines], h') \<and>
        next_service h' = next_service h + length lines \<and>
        container_at h' = container_at h \<and> slice_at h' = slice_at h \<and>
        next_container h' = next_container h \<and> next_slice h' = next_slice h \<and>
        (\<forall>p < next_service h. service_at h' p = service_at h p) \<and>
        (\<forall>i < length lines.
           service_at h' (next_service h + i) =
             \<lparr>Service.Name = Split (lines ! i) CHR '' '' ! 0,
              ID = Split (lines ! i) CHR '' '' ! 1, Container = None\<rparr>)"
proof (induction lines arbitrary: h)
  case Nil
  then show ?case by simp
next
  case (Cons str lines)
  let ?obj = "\<lparr>Service.Name = Split str CHR '' '' ! 0, ID = Split str CHR '' '' ! 1, Container = None\<rparr>"
  obtain h1 where alloc: "new_service ?obj h = (next_service h, h1)"
    by (simp add: new_service_def)
  note h1 = new_service_simps(2-7) [of ?obj h, unfolded alloc snd_conv]
  from Cons.prems have sp: "\<not> length (Split str CHR '' '') \<le> Suc 0"
    and rest: "\<forall>line \<in> set lines. CHR '' '' \<in> set line"
    by (simp_all add: Split_single_field)
  define services where "services = [next_service h1 ..< next_service h1 + length lines]"
  from Cons.IH [OF rest, of h1] obtain h' where
    run: "GetServices_loop lines h1 = Inr (services, h')"
    and nx: "next_service h' = next_service h1 + length lines"
    and fr: "container_at h' = container_at h1" "slice_at h' = slice_at h1"
        "next_container h' = next_container h1" "next_slice h' = next_slice h1"
    and old: "\<forall>p < next_service h1. service_at h' p = service_at h1 p"
    and new: "\<forall>i < length lines.
           service_at h' (next_service h1 + i) =
             \<lparr>Service.Name = Split (lines ! i) CHR '' '' ! 0,
              ID = Split (lines ! i) CHR '' '' ! 1, Container = None\<rparr>"
    unfolding services_def by blast
  have res: "GetServices_loop (str # lines) h = Inr (next_service h # services, h')"
    using sp alloc by (simp add: Let_def run)
  have upt: "next_service h # services = [next_service h ..< next_service h + length (str # lines)]"
  proof -
    have "[next_service h ..< next_service h + length (str # lines)] =
        next_service h # [Suc (next_service h) ..< next_service h + length (str # lines)]"
      by (rule upt_conv_Cons) simp
    then show ?thesis
      unfolding services_def h1(2) by simp
  qed
  have each: "service_at h' (next_service h + i) =
             \<lparr>Service.Name = Split ((str # lines) ! i) CHR '' '' ! 0,
              ID = Split ((str # lines) ! i) CHR '' '' ! 1, Container = None\<rparr>"
    if "i < length (str # lines)" for i
  proof (cases i)
    case 0
    then show ?thesis using old by (simp add: h1)
  next
    case (Suc k)
    with that new show ?thesis by (simp add: h1)
  qed
  have older: "\<forall>p < next_service h. service_at h' p = service_at h p"
    using old by (simp add: h1)
  show ?case
    unfolding res upt using nx fr older each
    by (intro exI [of _ h'] conjI allI impI) (simp_all add: h1)
qed

text \<open>
  C10. \<^verbatim>\<open>GetServices\<close> is partial on the output of the compose command: in a compose project
  whose command succeeds, a line without a space makes \<^verbatim>\<open>arr[1]\<close> panic with an index out of
  range, and when every line has a space the call returns one service for each line, named
  by the line's first field and identified by its second.
\<close>

theorem GetServices_partial:
  assumes "InDockerComposeProject c"
    and "RunCommandWithOutput ext (DockerCompose (Config c) @ '' config --hash=*'') = Inr output"
  shows "((\<exists>line \<in> set (SplitLines ext output). CHR '' '' \<notin> set line) \<longrightarrow>
            GetServices ext c h = Inl PanicIndexOutOfRange) \<and>
         ((\<forall>line \<in> set (SplitLines ext output). CHR '' '' \<in> set line) \<longrightarrow>
            (\<exists>services h'.
               GetServices ext c h = Inr (Some services, h') \<and>
               map (\<lambda>service. (Service.Name (service_at h' service), Service.ID (service_at h' service)))
                 services =
               map (\<lambda>line. (Split line CHR '' '' ! 0, Split line CHR '' '' ! 1))
                 (SplitLines ext output)))"
proof (intro conjI impI)
  assume "\<exists>line \<in> set (SplitLines ext output). CHR '' '' \<notin> set line"
  from GetServices_loop_panics [OF this] show "GetServices ext c h = Inl PanicIndexOutOfRange"
    using assms by (simp add: GetServices_def)
next
  let ?lines = "SplitLines ext output"
  assume "\<forall>line \<in> set ?lines. CHR '' '' \<in> set line"
  from GetServices_loop_returns [OF this, of h] obtain h' where
    run: "GetServices_loop ?lines h = Inr ([next_service h ..< next_service h + length ?lines], h')"
    and new: "\<forall>i < length ?lines.
           service_at h' (next_service h + i) =
             \<lparr>Service.Name = Split (?lines ! i) CHR '' '' ! 0,
              ID = Split (?lines ! i) CHR '' '' ! 1, Container = None\<rparr>"
    by blast
  have "GetServices ext c h = Inr (Some [next_service h ..< next_service h + length ?lines], h')"
    using assms run by (simp add: GetServices_def)
  moreover have "map (\<lambda>service. (Service.Name (service_at h' service), Service.ID (service_at h' service)))
                 [next_service h ..< next_service h + length ?lines] =
               map (\<lambda>line. (Split line CHR '' '' ! 0, Split line CHR '' '' ! 1)) ?lines"
    using new by (auto intro!: nth_equalityI)
  ultimately show "\<exists>services h'.
               GetServices ext c h = Inr (Some services, h') \<and>
               map (\<lambda>service. (Service.Name (service_at h' service), Service.ID (service_at h' service)))
                 services =
               map (\<lambda>line. (Split line CHR '' '' ! 0, Split line CHR '' '' ! 1))
                 (SplitLines ext output)"
    by blast
qed

theorem GetServices_partial_witness:
  "InDockerComposeProject ex_command \<and>
   RunCommandWithOutput ex_externals (DockerCompose (Config ex_command) @ '' config --hash=*'')
     = Inr (''web h1'' @ [CHR 0x0A] @ ''db h2'') \<and>
   SplitLines ex_externals (''web h1'' @ [CHR 0x0A] @ ''db h2'') = [''web h1'', ''db h2''] \<and>
   (case GetServices ex_externals ex_command ex_store of
      Inl e \<Rightarrow> False
    | Inr (services, h') \<Rightarrow>
        map (\<lambda>service. (Service.Name (service_at h' service), Service.ID (service_at h' service)))
          (range_of services) = [(''web'', ''h1''), (''db'', ''h2'')]) \<and>
   RunCommandWithOutput
     (ex_externals\<lparr>RunCommandWithOutput := (\<lambda>_. Inr (''web h1'' @ [CHR 0x0A] @ ''db''))\<rparr>)
     (DockerCompose (Config ex_command) @ '' config --hash=*'')
     = Inr (''web h1'' @ [CHR 0x0A] @ ''db'') \<and>
   GetServices
     (ex_externals\<lparr>RunCommandWithOutput := (\<lambda>_. Inr (''web h1'' @ [CHR 0x0A] @ ''db''))\<rparr>)
     ex_command ex_store
     = Inl PanicIndexOutOfRange"
proof -
  let ?output = "''web h1'' @ [CHR 0x0A] @ ''db h2''"
  let ?cut = "''web h1'' @ [CHR 0x0A] @ ''db''"
  let ?broken = "ex_externals\<lparr>RunCommandWithOutput := (\<lambda>_. Inr ?cut)\<rparr>"
  have project: "InDockerComposeProject ex_command"
    by (simp add: ex_command_def)
  have printed: "RunCommandWithOutput ex_externals
      (DockerCompose (Config ex_command) @ '' config --hash=*'') = Inr ?output"
    and printed': "RunCommandWithOutput ?broken
      (DockerCompose (Config ex_command) @ '' config --hash=*'') = Inr ?cut"
    by (simp_all add: ex_externals_def ex_command_def)
  have lines: "SplitLines ex_externals ?output = [''web h1'', ''db h2'']"
    and lines': "SplitLines ?broken ?cut = [''web h1'', ''db'']"
    by (simp_all add: ex_externals_def ex_SplitLines_def)
  have fields: "map (\<lambda>line. (Split line CHR '' '' ! 0, Split line CHR '' '' ! 1))
      [''web h1'', ''db h2''] = [(''web'', ''h1''), (''db'', ''h2'')]"
    by simp
  have spaces: "\<forall>line \<in> set (SplitLines ex_externals ?output). CHR '' '' \<in> set line"
    unfolding lines by simp
  have missing: "\<exists>line \<in> set (SplitLines ?broken ?cut). CHR '' '' \<notin> set line"
    unfolding lines' by simp
  note returns = GetServices_partial [OF project printed, of ex_store, THEN conjunct2, THEN mp, OF spaces]
  from returns [unfolded lines fields]
  obtain services h' where "GetServices ex_externals ex_command ex_store = Inr (Some services, h')"
    and "map (\<lambda>service. (Service.Name (service_at h' service), Service.ID (service_at h' service)))
           services = [(''web'', ''h1''), (''db'', ''h2'')]"
    by (elim exE conjE)
  then have good: "case GetServices ex_externals ex_command ex_store of
      Inl e \<Rightarrow> False
    | Inr (services, h') \<Rightarrow>
        map (\<lambda>service. (Service.Name (service_at h' service), Service.ID (service_at h' service)))
          (range_of services) = [(''web'', ''h1''), (''db'', ''h2'')]"
    by (simp add: range_of_def)
  note bad = GetServices_partial [OF project printed', of ex_store, THEN conjunct1, THEN mp, OF missing]
  from project printed lines good printed' bad show ?thesis
    by (intro conjI)
qed

section \<open>The refresh and service discovery\<close>

lemma sortedContainers_frame:
  "container_at (snd (sortedContainers ext c containers h)) = container_at h"
  "service_at (snd (sortedContainers ext c containers h)) = service_at h"
  "fst (sortedContainers ext c containers h) = containers"
  "next_slice (snd (sortedContainers ext c containers h)) = next_slice h"
  "s \<noteq> containers \<Longrightarrow> slice_at (snd (sortedContainers ext c containers h)) s = slice_at h s"
  by (simp_all add: sortedContainers_def)

lemma filterOutExited_frame:
  "container_at (snd (filterOutExited c containers h)) = container_at h"
  "service_at (snd (filterOutExited c containers h)) = service_at h"
  "s < next_slice h \<Longrightarrow> slice_at (snd (filterOutExited c containers h)) s = slice_at h s"
  by (simp_all add: filterOutExited_def new_slice_simps)

text \<open>
  C5, as the code has it. Given that the container list was fetched: outside a compose
  project a refresh with no current services returns no error and no services (the nil
  slice), touching no service object; inside a compose project an error of the compose
  command is the error that the refresh returns.
\<close>

theorem RefreshContainersAndServices_discovery:
  assumes "GetContainers ext c h = Inr (containers, h1)"
  shows "(\<not> InDockerComposeProject c \<longrightarrow>
            (\<exists>display c' h'.
               RefreshContainersAndServices ext c None h = Inr (display, None, c', h') \<and>
               Containers c' = containers \<and> DisplayContainers c' = display \<and>
               service_at h' = service_at h1 \<and> container_at h' = container_at h1)) \<and>
         (InDockerComposeProject c \<longrightarrow>
            (\<forall>err. RunCommandWithOutput ext (DockerCompose (Config c) @ '' config --hash=*'') = Inl err \<longrightarrow>
               RefreshContainersAndServices ext c None h = Inl err))"
proof (intro conjI impI allI)
  assume "\<not> InDockerComposeProject c"
  then have none: "GetServices ext c h1 = Inr (None, h1)"
    by (simp add: GetServices_def)
  have idle: "assignContainersToServices containers None h1 = h1"
    by (simp add: assignContainersToServices_def range_of_def)
  show "\<exists>display c' h'.
               RefreshContainersAndServices ext c None h = Inr (display, None, c', h') \<and>
               Containers c' = containers \<and> DisplayContainers c' = display \<and>
               service_at h' = service_at h1 \<and> container_at h' = container_at h1"
    by (simp add: RefreshContainersAndServices_def assms none idle Let_def split_beta
        sortedContainers_frame filterOutIgnoredContainers_frame filterOutExited_frame
        obtainStandaloneContainers_frame)
next
  fix err
  assume "InDockerComposeProject c"
    and "RunCommandWithOutput ext (DockerCompose (Config c) @ '' config --hash=*'') = Inl err"
  then have "GetServices ext c h1 = Inl err"
    by (simp add: GetServices_def)
  then show "RefreshContainersAndServices ext c None h = Inl err"
    by (simp add: RefreshContainersAndServices_def assms)
qed

theorem RefreshContainersAndServices_discovery_witness:
  "\<not> InDockerComposeProject (ex_command\<lparr>InDockerComposeProject := False\<rparr>) \<and>
   (case RefreshContainersAndServices ex_externals
           (ex_command\<lparr>InDockerComposeProject := False\<rparr>) None ex_store of
      Inl e \<Rightarrow> False
    | Inr (display, services, c', h') \<Rightarrow>
        services = None \<and> slice_at h' (Containers c') = [0, 3] \<and> slice_at h' display = [3, 0]) \<and>
   InDockerComposeProject ex_command \<and>
   RunCommandWithOutput
     (ex_externals\<lparr>RunCommandWithOutput := (\<lambda>_. Inl (Error ''exit status 1''))\<rparr>)
     (DockerCompose (Config ex_command) @ '' config --hash=*'') = Inl (Error ''exit status 1'') \<and>
   RefreshContainersAndServices
     (ex_externals\<lparr>RunCommandWithOutput := (\<lambda>_. Inl (Error ''exit status 1''))\<rparr>)
     ex_command None ex_store = Inl (Error ''exit status 1'')"
proof -
  let ?failing = "ex_externals\<lparr>RunCommandWithOutput := (\<lambda>_. Inl (Error ''exit status 1''))\<rparr>"
  have inside: "InDockerComposeProject ex_command"
    by (simp add: ex_command_def)
  have fails: "RunCommandWithOutput ?failing
     (DockerCompose (Config ex_command) @ '' config --hash=*'') = Inl (Error ''exit status 1'')"
    by simp
  obtain containers' h1' where
    listed': "GetContainers ?failing ex_command ex_store = Inr (containers', h1')"
    by (simp add: GetContainers_def GetContainers_body_def new_container_def new_slice_def
        ex_externals_def ex_fetched_def ex_store_def ex_command_def ex_container_def)
  note refused = RefreshContainersAndServices_discovery
    [OF listed', THEN conjunct2, THEN mp, OF inside, THEN spec, THEN mp, OF fails]
  let ?c = "ex_command\<lparr>InDockerComposeProject := False\<rparr>"
  have outside: "\<not> InDockerComposeProject ?c" by simp
  obtain containers h1 where
    listed: "GetContainers ex_externals ?c ex_store = Inr (containers, h1)"
    by (simp add: GetContainers_def GetContainers_body_def new_container_def new_slice_def
        ex_externals_def ex_fetched_def ex_store_def ex_command_def ex_container_def)
  from RefreshContainersAndServices_discovery [OF listed, THEN conjunct1, THEN mp, OF outside]
  obtain display c' h' where
    "RefreshContainersAndServices ex_externals ?c None ex_store = Inr (display, None, c', h')"
    by (elim exE conjE)
  moreover from this have "slice_at h' (Containers c') = [0, 3] \<and> slice_at h' display = [3, 0]"
    by (auto simp: RefreshContainersAndServices_def GetContainers_def GetContainers_body_def
        GetServices_def assignContainersToServices_def obtainStandaloneContainers_def
        filterOutExited_def filterOutIgnoredContainers_def sortedContainers_def
        sortedContainers_less_def states_def insertionSort_def
        new_container_def new_slice_def range_of_def TrimLeft_def index_map_def
        ex_externals_def ex_fetched_def ex_store_def ex_command_def ex_container_def)
  ultimately show ?thesis
    using inside fails refused by simp
qed

text \<open>
  C5 as stated fails: inside a compose project, a failing compose command makes the
  refresh fail.
\<close>

theorem RefreshContainersAndServices_discovery_counterexample:
  "RefreshContainersAndServices
     (ex_externals\<lparr>RunCommandWithOutput := (\<lambda>_. Inl (Error ''exit status 1''))\<rparr>)
     ex_command None ex_store = Inl (Error ''exit status 1'')"
  by (simp add: RefreshContainersAndServices_def GetContainers_def GetContainers_body_def
      GetServices_def new_container_def new_slice_def
      ex_externals_def ex_fetched_def ex_store_def ex_command_def ex_container_def)

subsection \<open>The refresh does not reorder the list it stores\<close>

text \<open>
  In \<^verbatim>\<open>RefreshContainersAndServices\<close> the sort works on the slice that the ignore filter has
  just built, never on the slice from \<^verbatim>\<open>GetContainers\<close>: what the refresh stores in
  \<^verbatim>\<open>c.Containers\<close> keeps the order in which the runtime listed the containers.
\<close>

lemma GetServices_loop_slices:
  "GetServices_loop lines h = Inr (services, h') \<Longrightarrow>
   slice_at h' = slice_at h \<and> next_slice h' = next_slice h \<and> container_at h' = container_at h"
proof (induction lines arbitrary: h services)
  case Nil
  then show ?case by simp
next
  case (Cons str lines)
  let ?obj = "\<lparr>Service.Name = Split str CHR '' '' ! 0, ID = Split str CHR '' '' ! 1, Container = None\<rparr>"
  obtain h1 where alloc: "new_service ?obj h = (next_service h, h1)"
    by (simp add: new_service_def)
  note h1 = new_service_simps(4-7) [of ?obj h, unfolded alloc snd_conv]
  from Cons.prems alloc obtain rest where "GetServices_loop lines h1 = Inr (rest, h')"
    by (auto simp: Let_def split: if_splits sum.splits)
  from Cons.IH [OF this] show ?case by (simp add: h1)
qed

lemma GetServices_slices:
  "GetServices ext c h = Inr (services, h') \<Longrightarrow>
   slice_at h' = slice_at h \<and> next_slice h' = next_slice h \<and> container_at h' = container_at h"
  by (auto simp: GetServices_def split: if_splits sum.splits dest: GetServices_loop_slices)

lemma GetContainers_slice:
  "GetContainers ext c h = Inr (containers, h1) \<Longrightarrow> containers < next_slice h1"
  by (auto simp: GetContainers_def new_slice_def split: sum.splits)

lemma assignContainersToServices_frame:
  "slice_at (assignContainersToServices containers services h) = slice_at h"
  "next_slice (assignContainersToServices containers services h) = next_slice h"
  "container_at (assignContainersToServices containers services h) = container_at h"
  by (simp_all add: assignContainersToServices_def assignContainersToServices_loop_frame)

lemma display_stages_slices:
  "s < next_slice h \<Longrightarrow>
     slice_at (snd (obtainStandaloneContainers containers services h)) s = slice_at h s"
  "next_slice h \<le> next_slice (snd (obtainStandaloneContainers containers services h))"
  "next_slice h \<le> next_slice (snd (filterOutExited c containers h))"
  "s < next_slice h \<Longrightarrow> slice_at (snd (filterOutIgnoredContainers c containers h)) s = slice_at h s"
  by (simp_all add: obtainStandaloneContainers_def filterOutExited_def
      filterOutIgnoredContainers_def new_slice_simps)

lemma RefreshContainersAndServices_keeps_Containers:
  assumes listed: "GetContainers ext c h = Inr (containers, h1)"
    and refreshed: "RefreshContainersAndServices ext c currentServices h = Inr (display, services, c', h')"
  shows "Containers c' = containers \<and> DisplayContainers c' = display \<and> display \<noteq> containers \<and>
         slice_at h' containers = slice_at h1 containers \<and> container_at h' = container_at h1"
proof -
  from refreshed listed obtain h2 where
    discovered: "(if currentServices \<noteq> None then Inr (currentServices, h1)
                  else GetServices ext c h1) = Inr (services, h2)"
    by (auto simp: RefreshContainersAndServices_def Let_def split: sum.splits prod.splits)
  have h2: "slice_at h2 = slice_at h1" "next_slice h2 = next_slice h1"
    "container_at h2 = container_at h1"
    using discovered by (auto split: if_splits dest: GetServices_slices)
  define h3 where "h3 = assignContainersToServices containers services h2"
  define p4 where "p4 = (if \<not> ShowAllContainers (Config c)
                       then obtainStandaloneContainers containers services h3
                       else (containers, h3))"
  define c1 where "c1 = c\<lparr>Containers := containers\<rparr>"
  define p5 where "p5 = filterOutExited c1 (fst p4) (snd p4)"
  define c2 where "c2 = c1\<lparr>DisplayContainers := fst p5\<rparr>"
  define p6 where "p6 = filterOutIgnoredContainers c2 (fst p5) (snd p5)"
  define c3 where "c3 = c2\<lparr>DisplayContainers := fst p6\<rparr>"
  define p7 where "p7 = sortedContainers ext c3 (fst p6) (snd p6)"
  have "RefreshContainersAndServices ext c currentServices h =
      Inr (fst p7, services, c3\<lparr>DisplayContainers := fst p7\<rparr>, snd p7)"
    apply (simp only: RefreshContainersAndServices_def listed sum.case prod.case discovered)
    apply (simp add: Let_def split_beta h3_def p4_def c1_def p5_def c2_def p6_def c3_def p7_def)
    done
  with refreshed have result: "display = fst p7" "h' = snd p7"
    "c' = c3\<lparr>DisplayContainers := fst p7\<rparr>"
    by auto
  have held: "containers < next_slice h1" by (rule GetContainers_slice [OF listed])
  have s3: "slice_at h3 = slice_at h1" "next_slice h3 = next_slice h1"
    "container_at h3 = container_at h1"
    by (simp_all add: h3_def assignContainersToServices_frame h2)
  have s4: "slice_at (snd p4) containers = slice_at h1 containers"
    "next_slice h1 \<le> next_slice (snd p4)" "container_at (snd p4) = container_at h1"
    using held display_stages_slices(2) [of h3 containers services]
    by (simp_all add: p4_def display_stages_slices(1) s3 obtainStandaloneContainers_frame)
  have s5: "slice_at (snd p5) containers = slice_at h1 containers"
    "next_slice h1 \<le> next_slice (snd p5)" "container_at (snd p5) = container_at h1"
    using held s4 display_stages_slices(3) [of "snd p4" c1 "fst p4"]
    by (simp_all add: p5_def filterOutExited_frame)
  have fresh: "fst p6 = next_slice (snd p5)"
    by (simp add: p6_def filterOutIgnoredContainers_frame)
  have s6: "slice_at (snd p6) containers = slice_at h1 containers"
    "container_at (snd p6) = container_at h1"
    using held s5 by (simp_all add: p6_def display_stages_slices filterOutIgnoredContainers_frame)
  have apart: "containers \<noteq> fst p6"
    using held s5(2) fresh by simp
  have s7: "slice_at (snd p7) containers = slice_at h1 containers"
    "container_at (snd p7) = container_at h1" "fst p7 = fst p6"
    using apart s6 by (simp_all add: p7_def sortedContainers_frame)
  show ?thesis
    using s7 apart by (simp add: result c3_def c2_def c1_def)
qed

section \<open>The sort of the display pipeline\<close>

lemma sortedContainers_less_iff:
  "sortedContainers_less h i j \<longleftrightarrow>
     states (State (Container (container_at h i))) < states (State (Container (container_at h j))) \<or>
     states (State (Container (container_at h i))) = states (State (Container (container_at h j))) \<and>
     Name (container_at h i) < Name (container_at h j)"
  by (auto simp: sortedContainers_less_def Let_def)

lemma not_sortedContainers_less_iff:
  "\<not> sortedContainers_less h j i \<longleftrightarrow>
     states (State (Container (container_at h i))) < states (State (Container (container_at h j))) \<or>
     states (State (Container (container_at h i))) = states (State (Container (container_at h j))) \<and>
     Name (container_at h i) \<le> Name (container_at h j)"
  by (auto simp: sortedContainers_less_iff)

lemma strict_weak_order_sortedContainers_less: "strict_weak_order (sortedContainers_less h)"
  unfolding strict_weak_order_def sortedContainers_less_iff
  by (intro conjI allI impI) auto

lemma set_insertionSort_inner: "set (insertionSort_inner lt x ys) = insert x (set ys)"
  by (induction ys) auto

lemma mset_insertionSort_inner: "mset (insertionSort_inner lt x ys) = add_mset x (mset ys)"
  by (induction ys) auto

lemma sorted_insertionSort_inner:
  assumes "strict_weak_order lt" and "sorted_wrt (\<lambda>a b. \<not> lt a b) ys"
  shows "sorted_wrt (\<lambda>a b. \<not> lt a b) (insertionSort_inner lt x ys)"
  using assms(2)
proof (induction ys)
  case Nil
  then show ?case by simp
next
  case (Cons y ys)
  have irrefl: "\<And>a. \<not> lt a a"
    and trans: "\<And>a b c. lt a b \<Longrightarrow> lt b c \<Longrightarrow> lt a c"
    and neg: "\<And>a b c. \<not> lt a b \<Longrightarrow> \<not> lt b c \<Longrightarrow> \<not> lt a c"
    using assms(1) unfolding strict_weak_order_def by blast+
  show ?case
  proof (cases "lt x y")
    case True
    then have "\<not> lt y x" using irrefl trans by blast
    with True Cons show ?thesis
      by (auto simp: set_insertionSort_inner)
  next
    case False
    with Cons.prems neg show ?thesis by auto
  qed
qed

lemma foldl_insertionSort_inner:
  assumes "strict_weak_order lt" and "sorted_wrt (\<lambda>a b. \<not> lt a b) acc"
  shows "sorted_wrt (\<lambda>a b. \<not> lt a b) (foldl (\<lambda>prefix x. insertionSort_inner lt x prefix) acc xs) \<and>
         mset (foldl (\<lambda>prefix x. insertionSort_inner lt x prefix) acc xs) = mset acc + mset xs"
  using assms(2)
proof (induction xs arbitrary: acc)
  case Nil
  then show ?case by simp
next
  case (Cons x xs)
  from Cons.IH [OF sorted_insertionSort_inner [OF assms(1) Cons.prems, of x]]
  show ?case by (simp add: mset_insertionSort_inner)
qed

lemma insertionSort_contract: "sort_Slice_contract insertionSort"
  unfolding sort_Slice_contract_def
proof (intro allI impI)
  fix lt :: "cref \<Rightarrow> cref \<Rightarrow> bool" and xs
  assume "strict_weak_order lt"
  from foldl_insertionSort_inner [OF this, of "[]" xs]
  show "mset (insertionSort lt xs) = mset xs \<and> sorted_wrt (\<lambda>a b. \<not> lt b a) (insertionSort lt xs)"
    by (simp add: insertionSort_def sorted_wrt_rev)
qed

text \<open>
  C6. With a \<^verbatim>\<open>sort.Slice\<close> that keeps its promise: when \<^verbatim>\<open>LegacySortContainers\<close> is off,
  \<^verbatim>\<open>sortedContainers\<close> returns the containers it was given, ordered by state rank ascending
  (running 1, exited 2, created 3, any other state 0 and so first) and, within a rank, by
  name ascending; hence no running container comes after an exited or created one, and no
  exited one after a created one. When it is on, the containers come back in the order of
  the input.
\<close>

theorem sortedContainers_order:
  assumes "sort_Slice_contract (sort_Slice ext)"
  shows "fst (sortedContainers ext c containers h) = containers \<and>
    container_at (snd (sortedContainers ext c containers h)) = container_at h \<and>
    (LegacySortContainers (Config c) \<longrightarrow>
       elements (sortedContainers ext c containers h) = slice_at h containers) \<and>
    (\<not> LegacySortContainers (Config c) \<longrightarrow>
       mset (elements (sortedContainers ext c containers h)) = mset (slice_at h containers) \<and>
       sorted_wrt
         (\<lambda>a b. states (State (Container (container_at h a)))
                  < states (State (Container (container_at h b))) \<or>
                states (State (Container (container_at h a)))
                  = states (State (Container (container_at h b))) \<and>
                Name (container_at h a) \<le> Name (container_at h b))
         (elements (sortedContainers ext c containers h)) \<and>
       sorted_wrt
         (\<lambda>a b. \<not> (State (Container (container_at h b)) = ''running'' \<and>
                     State (Container (container_at h a)) \<in> {''exited'', ''created''}) \<and>
                \<not> (State (Container (container_at h b)) = ''exited'' \<and>
                     State (Container (container_at h a)) = ''created'') \<and>
                \<not> (State (Container (container_at h b)) \<notin> {''running'', ''exited'', ''created''} \<and>
                     State (Container (container_at h a)) \<in> {''running'', ''exited'', ''created''}))
         (elements (sortedContainers ext c containers h)))"
proof (intro conjI impI)
  show "fst (sortedContainers ext c containers h) = containers"
    and "container_at (snd (sortedContainers ext c containers h)) = container_at h"
    by (simp_all add: sortedContainers_def)
next
  assume "LegacySortContainers (Config c)"
  then show "elements (sortedContainers ext c containers h) = slice_at h containers"
    by (simp add: sortedContainers_def elements_def)
next
  assume modern: "\<not> LegacySortContainers (Config c)"
  let ?ys = "sort_Slice ext (sortedContainers_less h) (slice_at h containers)"
  have el: "elements (sortedContainers ext c containers h) = ?ys"
    using modern by (simp add: sortedContainers_def elements_def)
  from assms strict_weak_order_sortedContainers_less [of h]
  have perm: "mset ?ys = mset (slice_at h containers)"
    and ordered: "sorted_wrt (\<lambda>a b. \<not> sortedContainers_less h b a) ?ys"
    unfolding sort_Slice_contract_def by blast+
  show "mset (elements (sortedContainers ext c containers h)) = mset (slice_at h containers)"
    unfolding el by (rule perm)
  show rank: "sorted_wrt
         (\<lambda>a b. states (State (Container (container_at h a)))
                  < states (State (Container (container_at h b))) \<or>
                states (State (Container (container_at h a)))
                  = states (State (Container (container_at h b))) \<and>
                Name (container_at h a) \<le> Name (container_at h b))
         (elements (sortedContainers ext c containers h))"
    unfolding el using ordered by (simp only: not_sortedContainers_less_iff)
  show "sorted_wrt
         (\<lambda>a b. \<not> (State (Container (container_at h b)) = ''running'' \<and>
                     State (Container (container_at h a)) \<in> {''exited'', ''created''}) \<and>
                \<not> (State (Container (container_at h b)) = ''exited'' \<and>
                     State (Container (container_at h a)) = ''created'') \<and>
                \<not> (State (Container (container_at h b)) \<notin> {''running'', ''exited'', ''created''} \<and>
                     State (Container (container_at h a)) \<in> {''running'', ''exited'', ''created''}))
         (elements (sortedContainers ext c containers h))"
    by (rule sorted_wrt_mono_rel [OF _ rank]) (auto simp: states_def split: if_splits)
qed

theorem sortedContainers_order_witness:
  "sort_Slice_contract (sort_Slice ex_externals) \<and>
   \<not> LegacySortContainers (Config ex_command) \<and>
   slice_at ex_store 1 = [2, 1, 0] \<and>
   map (\<lambda>a. (State (Container (container_at ex_store a)), Name (container_at ex_store a))) [0, 1, 2]
     = [(''running'', ''web''), (''exited'', ''db''), (''created'', ''job'')] \<and>
   elements (sortedContainers ex_externals ex_command 1 ex_store) = [0, 1, 2] \<and>
   mset (elements (sortedContainers ex_externals ex_command 1 ex_store)) = mset [2, 1, 0] \<and>
   LegacySortContainers (Config (ex_command\<lparr>Config := (Config ex_command)\<lparr>LegacySortContainers := True\<rparr>\<rparr>)) \<and>
   elements (sortedContainers ex_externals
               (ex_command\<lparr>Config := (Config ex_command)\<lparr>LegacySortContainers := True\<rparr>\<rparr>) 1 ex_store)
     = [2, 1, 0]"
proof -
  let ?legacy = "ex_command\<lparr>Config := (Config ex_command)\<lparr>LegacySortContainers := True\<rparr>\<rparr>"
  have contract: "sort_Slice_contract (sort_Slice ex_externals)"
    by (simp add: ex_externals_def insertionSort_contract)
  have modern: "\<not> LegacySortContainers (Config ex_command)"
    and legacy: "LegacySortContainers (Config ?legacy)"
    by (simp_all add: ex_command_def)
  have input: "slice_at ex_store 1 = [2, 1, 0]"
    and labels: "map (\<lambda>a. (State (Container (container_at ex_store a)), Name (container_at ex_store a)))
        [0, 1, 2] = [(''running'', ''web''), (''exited'', ''db''), (''created'', ''job'')]"
    by (simp_all add: ex_store_def ex_container_def)
  have sorted: "elements (sortedContainers ex_externals ex_command 1 ex_store) = [0, 1, 2]"
    by (simp add: elements_def sortedContainers_def sortedContainers_less_def states_def
        insertionSort_def ex_externals_def ex_command_def ex_store_def ex_container_def)
  note kept = sortedContainers_order [OF contract, of ?legacy 1 ex_store,
      THEN conjunct2, THEN conjunct2, THEN conjunct1, THEN mp, OF legacy]
  note ordered = sortedContainers_order [OF contract, of ex_command 1 ex_store,
      THEN conjunct2, THEN conjunct2, THEN conjunct2, THEN mp, OF modern]
  from contract modern input labels sorted ordered [THEN conjunct1, unfolded input]
    legacy kept [unfolded input]
  show ?thesis
    by (intro conjI)
qed

lemma filterOutExited_input:
  "containers < next_slice h \<Longrightarrow>
   slice_at (snd (filterOutExited c containers h)) containers = slice_at h containers"
  by (simp add: filterOutExited_def new_slice_simps)

lemma filterOutIgnoredContainers_input:
  "containers < next_slice h \<Longrightarrow>
   slice_at (snd (filterOutIgnoredContainers c containers h)) containers = slice_at h containers"
  by (simp add: filterOutIgnoredContainers_def new_slice_simps)

text \<open>
  C9, as the code has it. Applied to an allocated slice, the exited filter and the ignore
  filter leave the elements of their input as they were, and so does the sort in legacy
  mode, which returns its input and the store unchanged. Outside legacy mode the sort
  writes the order that \<^verbatim>\<open>sort.Slice\<close> produces into the input slice itself and returns that
  slice: the input keeps its elements (when \<^verbatim>\<open>sort.Slice\<close> keeps its promise) but not their
  order. No stage changes a container object.
\<close>

theorem display_stages_input:
  assumes "containers < next_slice h"
  shows "slice_at (snd (filterOutExited c containers h)) containers = slice_at h containers \<and>
         slice_at (snd (filterOutIgnoredContainers c containers h)) containers = slice_at h containers \<and>
         (LegacySortContainers (Config c) \<longrightarrow>
            sortedContainers ext c containers h = (containers, h)) \<and>
         (\<not> LegacySortContainers (Config c) \<longrightarrow>
            fst (sortedContainers ext c containers h) = containers \<and>
            slice_at (snd (sortedContainers ext c containers h)) containers =
              sort_Slice ext (sortedContainers_less h) (slice_at h containers) \<and>
            (sort_Slice_contract (sort_Slice ext) \<longrightarrow>
               mset (slice_at (snd (sortedContainers ext c containers h)) containers) =
               mset (slice_at h containers))) \<and>
         container_at (snd (filterOutExited c containers h)) = container_at h \<and>
         container_at (snd (filterOutIgnoredContainers c containers h)) = container_at h \<and>
         container_at (snd (sortedContainers ext c containers h)) = container_at h"
proof -
  have "mset (sort_Slice ext (sortedContainers_less h) (slice_at h containers)) =
        mset (slice_at h containers)" if "sort_Slice_contract (sort_Slice ext)"
    using that strict_weak_order_sortedContainers_less [of h]
    unfolding sort_Slice_contract_def by blast
  then show ?thesis
    using assms
    by (simp add: filterOutExited_input filterOutIgnoredContainers_input
        filterOutExited_frame filterOutIgnoredContainers_frame sortedContainers_def)
qed

theorem display_stages_input_witness:
  "(1 :: slice) < next_slice ex_store \<and>
   slice_at ex_store 1 = [2, 1, 0] \<and>
   \<not> LegacySortContainers (Config ex_command) \<and>
   sort_Slice_contract (sort_Slice ex_externals) \<and>
   slice_at (snd (filterOutExited (ex_command\<lparr>ShowExited := False\<rparr>) 1 ex_store)) 1 = [2, 1, 0] \<and>
   elements (filterOutExited (ex_command\<lparr>ShowExited := False\<rparr>) 1 ex_store) = [2, 0] \<and>
   slice_at (snd (filterOutIgnoredContainers ex_command 1 ex_store)) 1 = [2, 1, 0] \<and>
   elements (filterOutIgnoredContainers ex_command 1 ex_store) = [2, 0] \<and>
   fst (sortedContainers ex_externals ex_command 1 ex_store) = 1 \<and>
   slice_at (snd (sortedContainers ex_externals ex_command 1 ex_store)) 1 = [0, 1, 2] \<and>
   mset (slice_at (snd (sortedContainers ex_externals ex_command 1 ex_store)) 1) = mset [2, 1, 0] \<and>
   LegacySortContainers (Config (ex_command\<lparr>Config := (Config ex_command)\<lparr>LegacySortContainers := True\<rparr>\<rparr>)) \<and>
   sortedContainers ex_externals
     (ex_command\<lparr>Config := (Config ex_command)\<lparr>LegacySortContainers := True\<rparr>\<rparr>) 1 ex_store
     = (1, ex_store)"
proof -
  let ?legacy = "ex_command\<lparr>Config := (Config ex_command)\<lparr>LegacySortContainers := True\<rparr>\<rparr>"
  let ?hide = "ex_command\<lparr>ShowExited := False\<rparr>"
  have allocated: "(1 :: slice) < next_slice ex_store"
    and input: "slice_at ex_store 1 = [2, 1, 0]"
    by (simp_all add: ex_store_def)
  have contract: "sort_Slice_contract (sort_Slice ex_externals)"
    by (simp add: ex_externals_def insertionSort_contract)
  have modern: "\<not> LegacySortContainers (Config ex_command)"
    and legacy: "LegacySortContainers (Config ?legacy)"
    by (simp_all add: ex_command_def)
  have filtered: "elements (filterOutExited ?hide 1 ex_store) = [2, 0]"
    "elements (filterOutIgnoredContainers ex_command 1 ex_store) = [2, 0]"
    by (simp_all add: elements_def filterOutExited_def filterOutIgnoredContainers_def new_slice_def
        ex_command_def ex_store_def ex_container_def)
  have sorted: "sort_Slice ex_externals (sortedContainers_less ex_store) [2, 1, 0] = [0, 1, 2]"
    by (simp add: sortedContainers_less_def states_def
        insertionSort_def ex_externals_def ex_store_def ex_container_def)
  note exited = display_stages_input [OF allocated, of ?hide ex_externals, THEN conjunct1]
  note ignored = display_stages_input [OF allocated, of ex_command ex_externals,
      THEN conjunct2, THEN conjunct1]
  note kept = display_stages_input [OF allocated, of ?legacy ex_externals,
      THEN conjunct2, THEN conjunct2, THEN conjunct1, THEN mp, OF legacy]
  note moved = display_stages_input [OF allocated, of ex_command ex_externals,
      THEN conjunct2, THEN conjunct2, THEN conjunct2, THEN conjunct1, THEN mp, OF modern]
  note same_slice = moved [THEN conjunct1]
  note in_place = moved [THEN conjunct2, THEN conjunct1, unfolded input sorted]
  note permuted = moved [THEN conjunct2, THEN conjunct2, THEN mp, OF contract, unfolded input]
  from allocated input modern contract exited [unfolded input] filtered(1)
    ignored [unfolded input] filtered(2) same_slice in_place permuted legacy kept
  show ?thesis
    by (intro conjI)
qed

text \<open>
  C9 as stated fails for the sort: the input slice holds its elements in a new order
  afterwards.
\<close>

theorem display_stages_input_counterexample:
  "slice_at ex_store 1 = [2, 1, 0] \<and>
   slice_at (snd (sortedContainers ex_externals ex_command 1 ex_store)) 1 = [0, 1, 2] \<and>
   slice_at (snd (sortedContainers ex_externals ex_command 1 ex_store)) 1 \<noteq> slice_at ex_store 1"
  by (simp add: sortedContainers_def sortedContainers_less_def states_def
        insertionSort_def ex_externals_def ex_command_def ex_store_def ex_container_def)

section \<open>The life of a stats monitor\<close>

lemma set_MonitoringStats_flag [simp]:
  "MonitoringStats (container_at (set_MonitoringStats container b h) container) = b"
  by (simp add: set_MonitoringStats_def)

lemma appendStats_flag [simp]:
  "MonitoringStats (container_at (appendStats container stats h) p) =
     MonitoringStats (container_at h p)"
  by (simp add: appendStats_def)

lemma createClientStatMonitor_scan_slices:
  "slice_at (createClientStatMonitor_scan container body h) = slice_at h"
  by (induction container body h rule: createClientStatMonitor_scan.induct)
     (simp_all add: appendStats_def)

lemma createClientStatMonitor_scan_reaches:
  "monitor_reaches stream container s (AtScan body, h1) \<Longrightarrow>
   monitor_reaches stream container s (AtScan [], createClientStatMonitor_scan container body h1)"
proof (induction body arbitrary: h1)
  case Nil
  then show ?case by simp
next
  case (Cons line body)
  obtain data now where line: "line = (data, now)" by (cases line)
  have "monitor_reaches stream container s
          (AtScan body, appendStats container \<lparr>ClientStats = data, RecordedAt = now\<rparr> h1)"
    using Cons.prems by (rule monitor_reaches.step) (simp add: line)
  from Cons.IH [OF this] show ?case by (simp add: line)
qed

lemma createClientStatMonitor_returns:
  "monitor_reaches stream container (AtEntry, h)
     (Returned, createClientStatMonitor stream container h)"
proof -
  let ?h1 = "set_MonitoringStats container True h"
  have opened: "monitor_reaches stream container (AtEntry, h) (AtContainerStats, ?h1)"
    by (rule monitor_reaches.step [OF monitor_reaches.here]) simp
  show ?thesis
  proof (cases stream)
    case (Inl err)
    have "monitor_reaches stream container (AtEntry, h)
            (Returned, set_MonitoringStats container False ?h1)"
      using opened by (rule monitor_reaches.step) (simp add: Inl)
    then show ?thesis by (simp add: createClientStatMonitor_def Inl)
  next
    case (Inr body)
    have "monitor_reaches stream container (AtEntry, h) (AtScan body, ?h1)"
      using opened by (rule monitor_reaches.step) (simp add: Inr)
    then have "monitor_reaches stream container (AtEntry, h)
                 (AtScan [], createClientStatMonitor_scan container body ?h1)"
      by (rule createClientStatMonitor_scan_reaches)
    then have "monitor_reaches stream container (AtEntry, h)
        (Returned, set_MonitoringStats container False (createClientStatMonitor_scan container body ?h1))"
      by (rule monitor_reaches.step) simp
    then show ?thesis by (simp add: createClientStatMonitor_def Inr)
  qed
qed

lemma monitor_reaches_invariant:
  assumes "monitor_reaches stream container s t" and "s = (AtEntry, h)"
  shows "(fst t = AtContainerStats \<longrightarrow> MonitoringStats (container_at (snd t) container)) \<and>
         (\<forall>body. fst t = AtScan body \<longrightarrow> MonitoringStats (container_at (snd t) container)) \<and>
         (fst t = Returned \<longrightarrow> \<not> MonitoringStats (container_at (snd t) container)) \<and>
         (case fst t of
            AtEntry \<Rightarrow> createClientStatMonitor stream container (snd t)
          | AtContainerStats \<Rightarrow>
              (case stream of
                 Inl err \<Rightarrow> set_MonitoringStats container False (snd t)
               | Inr body \<Rightarrow>
                   set_MonitoringStats container False
                     (createClientStatMonitor_scan container body (snd t)))
          | AtScan body \<Rightarrow>
              set_MonitoringStats container False
                (createClientStatMonitor_scan container body (snd t))
          | Returned \<Rightarrow> snd t) = createClientStatMonitor stream container h"
  using assms
proof (induction rule: monitor_reaches.induct)
  case (here s)
  then show ?case by simp
next
  case (step s t u)
  obtain pc h1 where t: "t = (pc, h1)" by (cases t)
  from step.IH [OF step.prems] step.hyps(2) show ?case
    unfolding t
    by (cases pc rule: monitor_pc.exhaust; cases stream)
       (auto simp: createClientStatMonitor_def Let_def
          elim!: createClientStatMonitor_step.elims split: sum.splits list.splits)
qed

text \<open>
  C7. In a run of \<^verbatim>\<open>createClientStatMonitor\<close> on its own, the container's
  \<^verbatim>\<open>MonitoringStats\<close> flag is true when control is at the call that opens the stream and
  while the stream is scanned; when the call fails, the next step clears the flag and
  returns, without a second call; and whenever the function has returned, the flag is
  false and the store is the one \<^verbatim>\<open>createClientStatMonitor\<close> computes. A run over a stream
  that ends does reach the return, and a tick of \<^verbatim>\<open>MonitorContainerStats\<close> after it starts
  a monitor for the container again when the container is still held.
\<close>

theorem createClientStatMonitor_flag:
  assumes "monitor_reaches stream container (AtEntry, h) (pc, h')"
  shows "(pc = AtContainerStats \<longrightarrow> MonitoringStats (container_at h' container)) \<and>
         (\<forall>body. pc = AtScan body \<longrightarrow> MonitoringStats (container_at h' container)) \<and>
         (\<forall>err. pc = AtContainerStats \<and> stream = Inl err \<longrightarrow>
            createClientStatMonitor_step stream container (pc, h') =
              Some (Returned, set_MonitoringStats container False h')) \<and>
         (pc = Returned \<longrightarrow>
            \<not> MonitoringStats (container_at h' container) \<and>
            h' = createClientStatMonitor stream container h \<and>
            createClientStatMonitor_step stream container (pc, h') = None) \<and>
         monitor_reaches stream container (AtEntry, h)
           (Returned, createClientStatMonitor stream container h) \<and>
         \<not> MonitoringStats (container_at (createClientStatMonitor stream container h) container) \<and>
         (container \<in> set (slice_at h (Containers c)) \<longrightarrow>
            container \<in> set (MonitorContainerStats_tick c
                                (createClientStatMonitor stream container h)))"
proof -
  note inv = monitor_reaches_invariant [OF assms refl]
  have exits: "monitor_reaches stream container (AtEntry, h)
      (Returned, createClientStatMonitor stream container h)"
    by (rule createClientStatMonitor_returns)
  have cleared: "\<not> MonitoringStats (container_at (createClientStatMonitor stream container h) container)"
    using monitor_reaches_invariant [OF exits refl] by simp
  have slices: "slice_at (createClientStatMonitor stream container h) = slice_at h"
    by (cases stream)
       (simp_all add: createClientStatMonitor_def createClientStatMonitor_scan_slices
          set_MonitoringStats_def Let_def)
  have again: "container \<in> set (MonitorContainerStats_tick c
                                (createClientStatMonitor stream container h))"
    if "container \<in> set (slice_at h (Containers c))"
    using that cleared by (simp add: MonitorContainerStats_tick_def slices)
  from inv exits cleared again show ?thesis
    by auto
qed

theorem createClientStatMonitor_flag_witness:
  "monitor_reaches (Inl (Error ''no such container'')) 1 (AtEntry, ex_store)
     (AtContainerStats, set_MonitoringStats 1 True ex_store) \<and>
   \<not> MonitoringStats (container_at ex_store 1) \<and>
   MonitoringStats (container_at (set_MonitoringStats 1 True ex_store) 1) \<and>
   createClientStatMonitor_step (Inl (Error ''no such container'')) 1
     (AtContainerStats, set_MonitoringStats 1 True ex_store) =
     Some (Returned, set_MonitoringStats 1 False (set_MonitoringStats 1 True ex_store)) \<and>
   monitor_reaches (Inr [(''{}'', 8)]) 0 (AtEntry, ex_store)
     (Returned, createClientStatMonitor (Inr [(''{}'', 8)]) 0 ex_store) \<and>
   MonitoringStats (container_at ex_store 0) \<and>
   \<not> MonitoringStats (container_at (createClientStatMonitor (Inr [(''{}'', 8)]) 0 ex_store) 0) \<and>
   0 \<in> set (slice_at ex_store (Containers ex_command)) \<and>
   0 \<notin> set (MonitorContainerStats_tick ex_command ex_store) \<and>
   0 \<in> set (MonitorContainerStats_tick ex_command
                (createClientStatMonitor (Inr [(''{}'', 8)]) 0 ex_store)) \<and>
   StatHistory (container_at (createClientStatMonitor (Inr [(''{}'', 8)]) 0 ex_store) 0) =
     [\<lparr>ClientStats = ''{}'', RecordedAt = 7\<rparr>, \<lparr>ClientStats = ''{}'', RecordedAt = 8\<rparr>]"
proof -
  let ?refused = "Inl (Error ''no such container'') :: error + (string \<times> nat) list"
  let ?stream = "Inr [(''{}'', 8)] :: error + (string \<times> nat) list"
  let ?h1 = "set_MonitoringStats 1 True ex_store"
  have opened: "monitor_reaches ?refused 1 (AtEntry, ex_store) (AtContainerStats, ?h1)"
    by (rule monitor_reaches.step [OF monitor_reaches.here]) simp
  have before: "\<not> MonitoringStats (container_at ex_store 1)" "MonitoringStats (container_at ex_store 0)"
    by (simp_all add: ex_store_def ex_container_def)
  note at_call = createClientStatMonitor_flag [OF opened, THEN conjunct1, THEN mp, OF refl]
  note gives_up = createClientStatMonitor_flag [OF opened, THEN conjunct2, THEN conjunct2,
      THEN conjunct1, THEN spec, THEN mp, OF conjI, OF refl refl]
  note finished = createClientStatMonitor_flag [of ?stream 0 ex_store AtEntry ex_store ex_command,
      OF monitor_reaches.here]
  note exits = finished [THEN conjunct2, THEN conjunct2, THEN conjunct2, THEN conjunct2, THEN conjunct1]
  note cleared = finished [THEN conjunct2, THEN conjunct2, THEN conjunct2, THEN conjunct2,
      THEN conjunct2, THEN conjunct1]
  have held: "0 \<in> set (slice_at ex_store (Containers ex_command))"
    and busy: "0 \<notin> set (MonitorContainerStats_tick ex_command ex_store)"
    by (simp_all add: MonitorContainerStats_tick_def ex_store_def ex_command_def ex_container_def)
  note again = finished [THEN conjunct2, THEN conjunct2, THEN conjunct2, THEN conjunct2,
      THEN conjunct2, THEN conjunct2, THEN mp, OF held]
  have history: "StatHistory (container_at (createClientStatMonitor ?stream 0 ex_store) 0) =
     [\<lparr>ClientStats = ''{}'', RecordedAt = 7\<rparr>, \<lparr>ClientStats = ''{}'', RecordedAt = 8\<rparr>]"
    by (simp add: createClientStatMonitor_def set_MonitoringStats_def appendStats_def
        ex_store_def ex_container_def)
  from opened before(1) at_call gives_up exits before(2) cleared held busy again history
  show ?thesis
    by (intro conjI)
qed

end
